theory Spec2Isabelle
  imports Main "HOL-Library.AList"
begin

section \<open>Errors\<close>

text \<open>
  Every exception the modelled code can raise is a value. A function that can raise
  returns \<open>error + 'a\<close>, with \<open>Inl\<close> for the exception.
\<close>

datatype error =
    KeyError
  | IndexError
  | AttributeError
  | ValueError
  | ValidationError string
  | DoesNotExist
  | MultipleObjectsReturned
  | RuntimeError

text \<open>\<open>xs[0]\<close> raises IndexError on an empty sequence.\<close>

definition first_item :: "'a list \<Rightarrow> error + 'a" where
  "first_item xs = (case xs of [] \<Rightarrow> Inl IndexError | x # _ \<Rightarrow> Inr x)"

text \<open>
  \<open>int(s)\<close> of a unicode string, in base 10: white space, a sign, white space, digits,
  white space; anything else raises ValueError. White space is what unicode calls so
  among the characters below 256.
\<close>

definition is_space :: "char \<Rightarrow> bool" where
  "is_space c \<longleftrightarrow> (of_char c :: nat) \<in> {9, 10, 11, 12, 13, 28, 29, 30, 31, 32, 133, 160}"

definition is_digit :: "char \<Rightarrow> bool" where
  "is_digit c \<longleftrightarrow> 48 \<le> (of_char c :: nat) \<and> (of_char c :: nat) \<le> 57"

definition digits_value :: "string \<Rightarrow> nat" where
  "digits_value ds = foldl (\<lambda>n c. 10 * n + ((of_char c :: nat) - 48)) 0 ds"

definition py_int :: "string \<Rightarrow> error + int" where
  "py_int s =
     (let s1 = dropWhile is_space s;
          negative = (case s1 of [] \<Rightarrow> False | c # cs \<Rightarrow> c = CHR ''-'');
          s2 = (case s1 of [] \<Rightarrow> []
                | c # cs \<Rightarrow> if c = CHR ''-'' \<or> c = CHR ''+'' then cs else s1);
          s3 = dropWhile is_space s2;
          ds = takeWhile is_digit s3;
          rest = dropWhile is_space (dropWhile is_digit s3)
      in if ds = [] \<or> rest \<noteq> [] then Inl ValueError
         else Inr (if negative then - int (digits_value ds) else int (digits_value ds)))"

section \<open>Staff permissions (apps/staff/mixins.py)\<close>

text \<open>
  A permissions dictionary maps permission names to flags. It is an association list in
  iteration order; \<open>map_of\<close> reads it as the dictionary it stands for. The flags are
  compared with \<open>>\<close> by the code, so any linearly ordered type of values will do
  (\<open>bool\<close> with \<open>False < True\<close> for the flags of the staff models).
\<close>

type_synonym 'v perms = "(string \<times> 'v) list"

text \<open>
  A staff membership: the user it belongs to (the user's id) and its permissions.
  Field names carry the prefix \<open>staff_\<close>, since \<open>user\<close> is a field of several models.
\<close>

record 'v staff =
  staff_user :: nat
  staff_permissions :: "'v perms"

text \<open>
  An organizational node (Institution, Faculty, Issuer, BadgeClass): its staff
  memberships and its parent. \<open>parent = None\<close> stands for a node on which
  \<open>self.parent.get_permissions\<close> raises AttributeError (the Institution, which has no
  parent).
\<close>

datatype 'v node = Node (staff_items: "'v staff list") (parent: "'v node option")

text \<open>\<open>get_staff_member\<close>: the first membership of the user, or None.\<close>

definition get_staff_member :: "'v node \<Rightarrow> nat \<Rightarrow> 'v staff option" where
  "get_staff_member self u = find (\<lambda>staff. staff_user staff = u) (staff_items self)"

definition get_local_permissions :: "'v node \<Rightarrow> nat \<Rightarrow> 'v perms option" where
  "get_local_permissions self u =
     (case get_staff_member self u of
        Some staff \<Rightarrow> Some (staff_permissions staff)
      | None \<Rightarrow> None)"

text \<open>\<open>d[key]\<close> on a dictionary raises KeyError for a missing key.\<close>

definition getitem :: "'v perms \<Rightarrow> string \<Rightarrow> error + 'v" where
  "getitem d key = (case map_of d key of None \<Rightarrow> Inl KeyError | Some v \<Rightarrow> Inr v)"

text \<open>\<open>not d\<close> for a value that is None or a dictionary: true for None and for \<open>{}\<close>.\<close>

definition py_not :: "'v perms option \<Rightarrow> bool" where
  "py_not d = (case d of None \<Rightarrow> True | Some al \<Rightarrow> al = [])"

text \<open>
  The loop \<open>for key in local_perms: combined_perms[key] = ...\<close>, over the keys still to
  visit, with the dictionary built so far.
\<close>

fun combine_loop ::
  "'v::linorder perms \<Rightarrow> 'v perms \<Rightarrow> string list \<Rightarrow> 'v perms \<Rightarrow> error + 'v perms" where
  "combine_loop local_perms parent_perms [] combined_perms = Inr combined_perms"
| "combine_loop local_perms parent_perms (key # keys) combined_perms =
     (case getitem local_perms key of
        Inl e \<Rightarrow> Inl e
      | Inr lv \<Rightarrow>
          (case getitem parent_perms key of
             Inl e \<Rightarrow> Inl e
           | Inr pv \<Rightarrow>
               combine_loop local_perms parent_perms keys
                 (AList.update key (if lv > pv then lv else pv) combined_perms)))"

text \<open>
  \<open>get_permissions\<close>. The \<open>except AttributeError\<close> branch is the equation for a node
  without parent; a KeyError raised by the merge, here or higher in the tree, is not
  caught and propagates.
\<close>

fun get_permissions :: "'v::linorder node \<Rightarrow> nat \<Rightarrow> error + 'v perms option" where
  "get_permissions (Node staff None) u = Inr (get_local_permissions (Node staff None) u)"
| "get_permissions (Node staff (Some p)) u =
     (case get_permissions p u of
        Inl e \<Rightarrow> Inl e
      | Inr parent_perms \<Rightarrow>
          (let local_perms = get_local_permissions (Node staff (Some p)) u in
           if py_not parent_perms then Inr local_perms
           else if py_not local_perms then Inr parent_perms
           else
             (case (local_perms, parent_perms) of
                (Some l, Some pp) \<Rightarrow>
                  (case combine_loop l pp (map fst l) [] of
                     Inl e \<Rightarrow> Inl e
                   | Inr combined_perms \<Rightarrow> Inr (Some combined_perms))
              | _ \<Rightarrow> Inr None)))"

text \<open>
  The merge as the specification words it: for each key the maximum of the local value
  and the parent's value; what exists on one side only is kept unchanged; None when
  neither side exists.
\<close>

definition max_wins ::
  "(string \<rightharpoonup> 'v::linorder) option \<Rightarrow> (string \<rightharpoonup> 'v) option \<Rightarrow> (string \<rightharpoonup> 'v) option" where
  "max_wins local_perms parent_perms =
     (case (local_perms, parent_perms) of
        (None, None) \<Rightarrow> None
      | (Some l, None) \<Rightarrow> Some l
      | (None, Some p) \<Rightarrow> Some p
      | (Some l, Some p) \<Rightarrow>
          Some (\<lambda>key. case (l key, p key) of
                         (None, None) \<Rightarrow> None
                       | (Some a, None) \<Rightarrow> Some a
                       | (None, Some b) \<Rightarrow> Some b
                       | (Some a, Some b) \<Rightarrow> Some (max a b)))"

fun merged_permissions :: "'v::linorder node \<Rightarrow> nat \<Rightarrow> (string \<rightharpoonup> 'v) option" where
  "merged_permissions (Node staff None) u =
     map_option map_of (get_local_permissions (Node staff None) u)"
| "merged_permissions (Node staff (Some p)) u =
     max_wins (map_option map_of (get_local_permissions (Node staff (Some p)) u))
       (merged_permissions p u)"

text \<open>The nodes from a node up to the root, the node itself first.\<close>

fun ancestors :: "'v node \<Rightarrow> 'v node list" where
  "ancestors (Node staff None) = [Node staff None]"
| "ancestors (Node staff (Some p)) = Node staff (Some p) # ancestors p"

text \<open>Example trees: three levels with one key set, and two levels whose key sets differ.\<close>

definition institution_ex :: "bool node" where
  "institution_ex =
     Node [\<lparr>staff_user = 1, staff_permissions = [(''may_read'', True), (''may_award'', False)]\<rparr>]
       None"

definition faculty_ex :: "bool node" where
  "faculty_ex =
     Node [\<lparr>staff_user = 2, staff_permissions = [(''may_read'', True), (''may_award'', True)]\<rparr>]
       (Some institution_ex)"

definition issuer_ex :: "bool node" where
  "issuer_ex =
     Node [\<lparr>staff_user = 2, staff_permissions = [(''may_read'', False), (''may_award'', False)]\<rparr>,
           \<lparr>staff_user = 1, staff_permissions = [(''may_read'', False), (''may_award'', True)]\<rparr>]
       (Some faculty_ex)"

definition mismatch_ex :: "bool node" where
  "mismatch_ex =
     Node [\<lparr>staff_user = 1, staff_permissions = [(''may_read'', True)]\<rparr>]
       (Some (Node [\<lparr>staff_user = 1, staff_permissions = [(''may_award'', True)]\<rparr>] None))"

definition subset_ex :: "bool node" where
  "subset_ex =
     Node [\<lparr>staff_user = 1, staff_permissions = [(''may_read'', False)]\<rparr>]
       (Some institution_ex)"

section \<open>Users, email addresses and their variants (apps/badgeuser/models.py)\<close>

text \<open>
  The rows of the user and email tables, with the fields the modelled code reads or
  writes. Field names carry a prefix (\<open>bu_\<close>, \<open>ea_\<close>, \<open>var_\<close>), since \<open>email\<close> and
  \<open>user\<close> are fields of several models. \<open>ea_user_id\<close> and \<open>var_canonical_email_id\<close> are
  the foreign keys. A variant instance that was never saved has \<open>var_id = None\<close>.
  \<open>var_canonical_email\<close> and \<open>var_error\<close> are attributes of a variant instance and no
  columns of its row: the related object that the instance holds once its
  \<open>canonical_email\<close> was given to the constructor, assigned or first read, and the
  \<open>error\<close> that \<open>is_valid\<close> sets. The related object is held with the values of its
  fields: the code below does not change an address while a variant holds it, and the
  instance does not follow what is written to the row of the address by others.
\<close>

record badge_user =
  bu_id :: nat
  bu_email :: string

record email_address =
  ea_id :: nat
  ea_email :: string
  ea_user_id :: nat
  ea_primary :: bool
  ea_verified :: bool

record email_address_variant =
  var_id :: "nat option"
  var_email :: string
  var_canonical_email_id :: "nat option"
  var_canonical_email :: "email_address option"
  var_error :: "string option"

text \<open>
  The state: the three tables, rows in order of insertion, and the confirmation mails
  sent so far (by address). The tables are what a database transaction rolls back; a
  mail that was sent stays sent. The cache that the models publish to is not modelled.
\<close>

record db =
  users :: "badge_user list"
  emails :: "email_address list"
  variants :: "email_address_variant list"
  outbox :: "string list"

text \<open>
  \<open>lower()\<close> of a unicode string. A string is a list of characters with code points
  below 256; the capital letters among them are A to Z (65 to 90) and the accented
  capitals 192 to 214 and 216 to 222, and the small letter of each is 32 code points
  further.
\<close>

definition is_upper :: "nat \<Rightarrow> bool" where
  "is_upper n \<longleftrightarrow> (65 \<le> n \<and> n \<le> 90) \<or> (192 \<le> n \<and> n \<le> 214) \<or> (216 \<le> n \<and> n \<le> 222)"

definition lower_char :: "char \<Rightarrow> char" where
  "lower_char c =
     (if is_upper (of_char c) then char_of ((of_char c :: nat) + 32) else c)"

definition lower :: "string \<Rightarrow> string" where
  "lower s = map lower_char s"

subsection \<open>Queries and writes\<close>

text \<open>
  \<open>objects.get(...)\<close>: the one row that matches; DoesNotExist when none matches,
  MultipleObjectsReturned when several do.
\<close>

definition get_one :: "'a list \<Rightarrow> error + 'a" where
  "get_one rows =
     (case rows of [] \<Rightarrow> Inl DoesNotExist | [r] \<Rightarrow> Inr r | _ \<Rightarrow> Inl MultipleObjectsReturned)"

text \<open>
  Modelled from the spec: the managers of CachedEmailAddress (badgeuser/managers.py) are
  not among the sources. The canonical address is the registered address of record, so
  \<open>get(email=...)\<close> and \<open>get_or_create(email=...)\<close> of these managers find the row by
  its email.
\<close>

definition get_by_email :: "email_address list \<Rightarrow> string \<Rightarrow> error + email_address" where
  "get_by_email tbl email = get_one (filter (\<lambda>r. ea_email r = email) tbl)"

definition get_by_pk :: "email_address list \<Rightarrow> nat \<Rightarrow> error + email_address" where
  "get_by_pk tbl pk = get_one (filter (\<lambda>r. ea_id r = pk) tbl)"

text \<open>
  \<open>Model.save\<close> of an email address: the row with the instance's primary key is
  replaced, or the instance is inserted when the table has no such row.
\<close>

definition write_email :: "email_address list \<Rightarrow> email_address \<Rightarrow> email_address list" where
  "write_email tbl self =
     (if ea_id self \<in> set (map ea_id tbl)
      then map (\<lambda>r. if ea_id r = ea_id self then self else r) tbl
      else tbl @ [self])"

definition next_email_pk :: "email_address list \<Rightarrow> nat" where
  "next_email_pk tbl = Suc (fold max (map ea_id tbl) 0)"

definition next_variant_pk :: "email_address_variant list \<Rightarrow> nat" where
  "next_variant_pk tbl = Suc (fold max (map (\<lambda>v. case var_id v of None \<Rightarrow> 0 | Some k \<Rightarrow> k) tbl) 0)"

text \<open>
  \<open>Model.save\<close> of a variant: the columns of the instance are written, to the row with
  its primary key or to a new row.
\<close>

definition write_variant ::
  "email_address_variant list \<Rightarrow> email_address_variant \<Rightarrow> email_address_variant list" where
  "write_variant tbl self =
     (let row = self\<lparr>var_canonical_email := None, var_error := None\<rparr> in
      case var_id self of
        None \<Rightarrow> tbl @ [row\<lparr>var_id := Some (next_variant_pk tbl)\<rparr>]
      | Some k \<Rightarrow>
          if Some k \<in> set (map var_id tbl)
          then map (\<lambda>v. if var_id v = Some k then row else v) tbl
          else tbl @ [row])"

subsection \<open>EmailAddressVariant\<close>

text \<open>
  \<open>self.canonical_email\<close>, the read of a foreign key: the related object that the
  instance holds, when it holds one. Otherwise the address the key points to is read
  from the table and the instance holds it from then on; without a key, and with a key
  that no row has, the access raises DoesNotExist. The access returns the instance as
  it is afterwards.
\<close>

definition canonical_email ::
  "db \<Rightarrow> email_address_variant \<Rightarrow> (error + email_address) \<times> email_address_variant" where
  "canonical_email d self =
     (case var_canonical_email self of
        Some c \<Rightarrow> (Inr c, self)
      | None \<Rightarrow>
          (case var_canonical_email_id self of
             None \<Rightarrow> (Inl DoesNotExist, self)
           | Some pk \<Rightarrow>
               (case get_by_pk (emails d) pk of
                  Inl e \<Rightarrow> (Inl e, self)
                | Inr c \<Rightarrow> (Inr c, self\<lparr>var_canonical_email := Some c\<rparr>))))"

text \<open>
  \<open>self.canonical_email = c\<close>, the assignment to a foreign key: the instance gets the
  key of the object and holds the object.
\<close>

definition set_canonical_email ::
  "email_address \<Rightarrow> email_address_variant \<Rightarrow> email_address_variant" where
  "set_canonical_email c self =
     self\<lparr>var_canonical_email_id := Some (ea_id c), var_canonical_email := Some c\<rparr>"

text \<open>The property \<open>verified\<close> of a variant.\<close>

definition variant_verified ::
  "db \<Rightarrow> email_address_variant \<Rightarrow> (error + bool) \<times> email_address_variant" where
  "variant_verified d self =
     (case canonical_email d self of
        (Inl e, self1) \<Rightarrow> (Inl e, self1)
      | (Inr c, self1) \<Rightarrow> (Inr (ea_verified c), self1))"

text \<open>
  The inner function \<open>fail\<close> of \<open>is_valid\<close>: it raises, or it sets \<open>self.error\<close> and
  returns False to \<open>is_valid\<close>, which drops the value and goes on.
\<close>

definition fail ::
  "bool \<Rightarrow> string \<Rightarrow> email_address_variant \<Rightarrow> error + email_address_variant" where
  "fail raise_exception message self =
     (if raise_exception then Inl (ValidationError message)
      else Inr (self\<lparr>var_error := Some message\<rparr>))"

text \<open>\<open>not self.canonical_email_id\<close>: true for None and for 0.\<close>

definition no_id :: "nat option \<Rightarrow> bool" where
  "no_id k = (case k of None \<Rightarrow> True | Some n \<Rightarrow> n = 0)"

text \<open>
  \<open>is_valid\<close>. It returns True whenever it returns; the instance comes back with the
  canonical address it resolved and the error it noted.
\<close>

definition is_valid ::
  "db \<Rightarrow> email_address_variant \<Rightarrow> bool \<Rightarrow> error + (bool \<times> email_address_variant)" where
  "is_valid d self raise_exception =
     (case (if no_id (var_canonical_email_id self)
            then (case get_by_email (emails d) (var_email self) of
                    Inr c \<Rightarrow> Inr (set_canonical_email c self)
                  | Inl e \<Rightarrow>
                      if e = DoesNotExist
                      then fail raise_exception ''Canonical Email Address not found'' self
                      else Inl e)
            else Inr self) of
        Inl e \<Rightarrow> Inl e
      | Inr self1 \<Rightarrow>
          (case canonical_email d self1 of
             (Inl e, self2) \<Rightarrow> Inl e
           | (Inr c, self2) \<Rightarrow>
               (case (if \<not> lower (ea_email c) = lower (var_email self2)
                      then fail raise_exception
                             ''New EmailAddressVariant does not match stored email address.'' self2
                      else Inr self2) of
                  Inl e \<Rightarrow> Inl e
                | Inr self3 \<Rightarrow> Inr (True, self3))))"

definition emailaddressvariant_set_exists :: "db \<Rightarrow> email_address \<Rightarrow> bool" where
  "emailaddressvariant_set_exists d self =
     list_ex (\<lambda>v. var_canonical_email_id v = Some (ea_id self)) (variants d)"

text \<open>
  \<open>CachedEmailAddress.save\<close>, \<open>CachedEmailAddress.add_variant\<close> and
  \<open>EmailAddressVariant.save\<close> call each other: saving an address with capitals and no
  variant adds the lower-case variant, and saving a variant saves its canonical address
  again: the object that the variant holds, which for the variant that \<open>add_variant\<close>
  creates is the address being saved. The first argument bounds the depth of the calls,
  as the interpreter's recursion limit does; at depth 0 the call raises RuntimeError.
  A function returns its outcome and the state it leaves, also when it raises.
  \<open>add_variant\<close> returns the variant it created; no caller reads it, and the model
  returns nothing.
\<close>

fun cached_email_save :: "nat \<Rightarrow> email_address \<Rightarrow> db \<Rightarrow> (error + unit) \<times> db"
  and add_variant :: "nat \<Rightarrow> email_address \<Rightarrow> string \<Rightarrow> db \<Rightarrow> (error + unit) \<times> db"
  and variant_save :: "nat \<Rightarrow> email_address_variant \<Rightarrow> db \<Rightarrow> (error + unit) \<times> db" where
  "cached_email_save 0 self d = (Inl RuntimeError, d)"
| "cached_email_save (Suc n) self d =
     (let d1 = d\<lparr>emails := write_email (emails d) self\<rparr> in
      if \<not> emailaddressvariant_set_exists d1 self \<and> ea_email self \<noteq> lower (ea_email self)
      then add_variant n self (lower (ea_email self)) d1
      else (Inr (), d1))"
| "add_variant 0 self email_variation d = (Inl RuntimeError, d)"
| "add_variant (Suc n) self email_variation d =
     (let existing_variants =
            filter (\<lambda>v. var_canonical_email_id v = Some (ea_id self) \<and>
                         var_email v = email_variation) (variants d) in
      if email_variation \<notin> set (map var_email existing_variants)
      then variant_save n
             \<lparr>var_id = None, var_email = email_variation,
              var_canonical_email_id = Some (ea_id self), var_canonical_email = Some self,
              var_error = None\<rparr> d
      else (Inl (ValidationError (''Email variant '' @ email_variation @ '' already exists'')), d))"
| "variant_save 0 self d = (Inl RuntimeError, d)"
| "variant_save (Suc n) self d =
     (case is_valid d self True of
        Inl e \<Rightarrow> (Inl e, d)
      | Inr (ok, self1) \<Rightarrow>
          (let d1 = d\<lparr>variants := write_variant (variants d) self1\<rparr> in
           case canonical_email d1 self1 of
             (Inl e, self2) \<Rightarrow> (Inl e, d1)
           | (Inr c, self2) \<Rightarrow> cached_email_save n c d1))"

definition recursion_limit :: nat where
  "recursion_limit = 1000"

subsection \<open>CachedEmailAddress\<close>

text \<open>
  \<open>send_confirmation\<close> (of the allauth library): a confirmation mail goes to the address.
\<close>

definition send_confirmation :: "email_address \<Rightarrow> db \<Rightarrow> (error + unit) \<times> db" where
  "send_confirmation self d = (Inr (), d\<lparr>outbox := outbox d @ [ea_email self]\<rparr>)"

text \<open>\<open>delete\<close>: the row goes, and with it the variants that point to it (CASCADE).\<close>

definition delete_email :: "email_address \<Rightarrow> db \<Rightarrow> db" where
  "delete_email self d =
     d\<lparr>emails := filter (\<lambda>r. ea_id r \<noteq> ea_id self) (emails d),
       variants := filter (\<lambda>v. var_canonical_email_id v \<noteq> Some (ea_id self)) (variants d)\<rparr>"

text \<open>
  Modelled from the spec: \<open>CachedEmailAddress.cached.get_or_create(email=...,
  defaults={user, primary})\<close> belongs to a manager that is not among the sources. It
  returns the address of record with the email, or a new row saved with the defaults
  (unverified, with the next primary key). The second component says whether the row
  was created.
\<close>

definition get_or_create ::
  "string \<Rightarrow> nat \<Rightarrow> bool \<Rightarrow> db \<Rightarrow> (error + (email_address \<times> bool)) \<times> db" where
  "get_or_create email user primary d =
     (case get_by_email (emails d) email of
        Inr obj \<Rightarrow> (Inr (obj, False), d)
      | Inl e \<Rightarrow>
          if e = DoesNotExist
          then
            (let obj = \<lparr>ea_id = next_email_pk (emails d), ea_email = email, ea_user_id = user,
                        ea_primary = primary, ea_verified = False\<rparr> in
             case cached_email_save recursion_limit obj d of
               (Inl e1, d1) \<Rightarrow> (Inl e1, d1)
             | (Inr u, d1) \<Rightarrow> (Inr (obj, True), d1))
          else (Inl e, d))"

text \<open>
  Modelled from the spec: \<open>objects.get_primary(user)\<close> belongs to the manager of
  CachedEmailAddress, which is not among the sources. A user has one address marked
  primary, and \<open>set_as_primary\<close> says that it shadows the parent's function to use
  this manager, so the lookup is the parent's: the address of the user that is marked
  primary, None when there is none.
\<close>

definition get_primary :: "db \<Rightarrow> nat \<Rightarrow> error + email_address option" where
  "get_primary d user =
     (case get_one (filter (\<lambda>r. ea_user_id r = user \<and> ea_primary r) (emails d)) of
        Inr r \<Rightarrow> Inr (Some r)
      | Inl e \<Rightarrow> if e = DoesNotExist then Inr None else Inl e)"

definition get_user :: "db \<Rightarrow> nat \<Rightarrow> error + badge_user" where
  "get_user d pk = get_one (filter (\<lambda>u. bu_id u = pk) (users d))"

text \<open>\<open>user_email(user, email)\<close> and \<open>user.save()\<close>: the user's row gets the email.\<close>

definition set_user_email :: "badge_user \<Rightarrow> string \<Rightarrow> db \<Rightarrow> db" where
  "set_user_email user email d =
     d\<lparr>users := map (\<lambda>u. if bu_id u = bu_id user then user\<lparr>bu_email := email\<rparr> else u) (users d)\<rparr>"

text \<open>
  \<open>EmailAddress.set_as_primary\<close> of the allauth library, which the method of
  CachedEmailAddress calls last. Its \<open>old_primary.save()\<close> is the plain save of the row;
  \<open>self.save()\<close> is the save of CachedEmailAddress.
\<close>

definition emailaddress_set_as_primary ::
  "email_address \<Rightarrow> bool \<Rightarrow> db \<Rightarrow> (error + bool) \<times> db" where
  "emailaddress_set_as_primary self conditional d =
     (case get_user d (ea_user_id self) of
        Inl e \<Rightarrow> (Inl e, d)
      | Inr user \<Rightarrow>
          (case get_primary d (bu_id user) of
             Inl e \<Rightarrow> (Inl e, d)
           | Inr old_primary \<Rightarrow>
               if old_primary \<noteq> None \<and> conditional then (Inr False, d)
               else
                 (let d1 = (case old_primary of
                              None \<Rightarrow> d
                            | Some old \<Rightarrow>
                                d\<lparr>emails := write_email (emails d) (old\<lparr>ea_primary := False\<rparr>)\<rparr>) in
                  case cached_email_save recursion_limit (self\<lparr>ea_primary := True\<rparr>) d1 of
                    (Inl e, d2) \<Rightarrow> (Inl e, d2)
                  | (Inr u, d2) \<Rightarrow> (Inr True, set_user_email user (ea_email self) d2))))"

text \<open>\<open>CachedEmailAddress.set_as_primary\<close>.\<close>

definition set_as_primary :: "email_address \<Rightarrow> bool \<Rightarrow> db \<Rightarrow> (error + bool) \<times> db" where
  "set_as_primary self conditional d =
     (case get_user d (ea_user_id self) of
        Inl e \<Rightarrow> (Inl e, d)
      | Inr user \<Rightarrow>
          (case get_primary d (bu_id user) of
             Inl e \<Rightarrow> (Inl e, d)
           | Inr old_primary \<Rightarrow>
               if old_primary \<noteq> None \<and> conditional then (Inr False, d)
               else
                 (case (case old_primary of
                          None \<Rightarrow> (Inr (), d)
                        | Some old \<Rightarrow>
                            cached_email_save recursion_limit (old\<lparr>ea_primary := False\<rparr>) d) of
                    (Inl e, d1) \<Rightarrow> (Inl e, d1)
                  | (Inr u, d1) \<Rightarrow> emailaddress_set_as_primary self conditional d1)))"

subsection \<open>BadgeUser\<close>

definition cached_emails :: "db \<Rightarrow> nat \<Rightarrow> email_address list" where
  "cached_emails d self_id = filter (\<lambda>e. ea_user_id e = self_id) (emails d)"

text \<open>The property \<open>primary_email\<close>.\<close>

definition primary_email :: "db \<Rightarrow> badge_user \<Rightarrow> error + string" where
  "primary_email d self =
     (let primaries = filter ea_primary (cached_emails d (bu_id self)) in
      if length primaries > 0
      then (case first_item primaries of Inl e \<Rightarrow> Inl e | Inr p \<Rightarrow> Inr (ea_email p))
      else Inr (bu_email self))"

text \<open>
  An entry of the list given to the setter of \<open>email_items\<close>: the email, and the value
  under \<open>primary\<close>, None when the entry has no such key.
\<close>

record email_data =
  ed_email :: string
  ed_primary :: "bool option"

text \<open>\<open>email_data.get('primary', False)\<close>.\<close>

definition get_primary_flag :: "email_data \<Rightarrow> bool" where
  "get_primary_flag email_data = (case ed_primary email_data of None \<Rightarrow> False | Some b \<Rightarrow> b)"

text \<open>The body of the first loop of the setter, for one entry.\<close>

definition update_item :: "nat \<Rightarrow> email_data \<Rightarrow> db \<Rightarrow> (error + unit) \<times> db" where
  "update_item self_id email_data d =
     (let primary = get_primary_flag email_data in
      case get_or_create (ed_email email_data) self_id primary d of
        (Inl e, d1) \<Rightarrow> (Inl e, d1)
      | (Inr (emailaddress, created), d1) \<Rightarrow>
          if created then send_confirmation emailaddress d1
          else if ea_user_id emailaddress = self_id
          then cached_email_save recursion_limit (emailaddress\<lparr>ea_primary := primary\<rparr>) d1
          else if \<not> ea_verified emailaddress
          then
            (case cached_email_save recursion_limit
                    (emailaddress\<lparr>ea_user_id := self_id, ea_primary := primary\<rparr>) d1 of
               (Inl e, d2) \<Rightarrow> (Inl e, d2)
             | (Inr u, d2) \<Rightarrow>
                 send_confirmation (emailaddress\<lparr>ea_user_id := self_id, ea_primary := primary\<rparr>) d2)
          else
            (Inl (ValidationError
                    (''Email '' @ [CHR 0x27] @ ed_email email_data @ [CHR 0x27] @
                     '' may already be in use'')), d1))"

fun update_items :: "nat \<Rightarrow> email_data list \<Rightarrow> db \<Rightarrow> (error + unit) \<times> db" where
  "update_items self_id [] d = (Inr (), d)"
| "update_items self_id (email_data # rest) d =
     (case update_item self_id email_data d of
        (Inl e, d1) \<Rightarrow> (Inl e, d1)
      | (Inr u, d1) \<Rightarrow> update_items self_id rest d1)"

text \<open>
  The second loop, over the addresses the user has when the loop starts: an address
  whose email is not among the submitted ones is deleted.
\<close>

fun remove_old_items :: "string list \<Rightarrow> email_address list \<Rightarrow> db \<Rightarrow> db" where
  "remove_old_items new_email_idx [] d = d"
| "remove_old_items new_email_idx (emailaddress # rest) d =
     (if ea_email emailaddress \<notin> set new_email_idx
      then remove_old_items new_email_idx rest (delete_email emailaddress d)
      else remove_old_items new_email_idx rest d)"

text \<open>
  \<open>with transaction.atomic()\<close>: when the block raises, the tables are as they were
  before the block; the mails sent inside the block are not taken back.
\<close>

definition atomic :: "(db \<Rightarrow> (error + 'a) \<times> db) \<Rightarrow> db \<Rightarrow> (error + 'a) \<times> db" where
  "atomic block d =
     (case block d of
        (Inl e, d1) \<Rightarrow> (Inl e, d\<lparr>outbox := outbox d1\<rparr>)
      | (Inr x, d1) \<Rightarrow> (Inr x, d1))"

text \<open>The setter of \<open>email_items\<close>, for the user with id \<open>self_id\<close>.\<close>

definition email_items_setter :: "nat \<Rightarrow> email_data list \<Rightarrow> db \<Rightarrow> (error + unit) \<times> db" where
  "email_items_setter self_id val d =
     (if length val < 1 then (Inl (ValidationError ''Must have at least 1 email''), d)
      else
        (let new_email_idx = map ed_email val;
             primary_count = sum_list (map (\<lambda>e. if get_primary_flag e then 1 else 0 :: nat) val) in
         if primary_count \<noteq> 1
         then (Inl (ValidationError ''Must have exactly 1 primary email''), d)
         else
           atomic
             (\<lambda>d0. case update_items self_id val d0 of
                      (Inl e, d1) \<Rightarrow> (Inl e, d1)
                    | (Inr u, d1) \<Rightarrow>
                        (Inr (), remove_old_items new_email_idx (cached_emails d1 self_id) d1))
             d))"

text \<open>The number of addresses of a user that are marked primary.\<close>

definition primary_count :: "db \<Rightarrow> nat \<Rightarrow> nat" where
  "primary_count d user = length (filter (\<lambda>r. ea_user_id r = user \<and> ea_primary r) (emails d))"

text \<open>
  The invariant of the email table that the database keeps: primary keys are distinct
  and none is 0.
\<close>

definition wf_emails :: "db \<Rightarrow> bool" where
  "wf_emails d \<longleftrightarrow> distinct (map ea_id (emails d)) \<and> 0 \<notin> set (map ea_id (emails d))"


text \<open>
  The submitted entries that are marked primary, and the flag an email ends up with when
  the entries are processed in order: that of the last entry with the email.
\<close>

definition primary_entries :: "email_data list \<Rightarrow> nat" where
  "primary_entries val = length (filter get_primary_flag val)"

fun last_flag :: "email_data list \<Rightarrow> string \<Rightarrow> bool" where
  "last_flag [] email = False"
| "last_flag (x # xs) email =
     (if email \<in> set (map ed_email xs) then last_flag xs email
      else email = ed_email x \<and> get_primary_flag x)"

text \<open>No user has two addresses marked primary.\<close>

definition at_most_one_primary :: "db \<Rightarrow> bool" where
  "at_most_one_primary d \<longleftrightarrow> (\<forall>user. primary_count d user \<le> 1)"

text \<open>
  An entry of the submitted list has been processed: the table has exactly one address
  with the email, it belongs to the user and carries the flag.
\<close>

definition item_done :: "db \<Rightarrow> nat \<Rightarrow> string \<Rightarrow> bool \<Rightarrow> bool" where
  "item_done d self_id email flag \<longleftrightarrow>
     (\<exists>r. r \<in> set (emails d) \<and> ea_email r = email \<and> ea_user_id r = self_id \<and>
          ea_primary r = flag \<and> (\<forall>r' \<in> set (emails d). ea_email r' = email \<longrightarrow> r' = r))"

text \<open>
  An example state: user 1 with one verified primary address, user 2 with an unverified
  primary address and a verified second one.
\<close>

definition db_ex :: db where
  "db_ex =
     \<lparr>users = [\<lparr>bu_id = 1, bu_email = ''ann@a.nl''\<rparr>, \<lparr>bu_id = 2, bu_email = ''bob@b.nl''\<rparr>],
      emails =
        [\<lparr>ea_id = 1, ea_email = ''ann@a.nl'', ea_user_id = 1, ea_primary = True, ea_verified = True\<rparr>,
         \<lparr>ea_id = 2, ea_email = ''bob@b.nl'', ea_user_id = 2, ea_primary = True, ea_verified = False\<rparr>,
         \<lparr>ea_id = 3, ea_email = ''bob@work.nl'', ea_user_id = 2, ea_primary = False, ea_verified = True\<rparr>],
      variants = [],
      outbox = []\<rparr>"

definition ann_address :: email_address where
  "ann_address =
     \<lparr>ea_id = 1, ea_email = ''ann@a.nl'', ea_user_id = 1, ea_primary = True, ea_verified = True\<rparr>"

text \<open>
  A variant instance as loaded from its row: it has the key of the address of user 1
  and holds no address yet. And the example state after the address of user 1 was
  saved as unverified.
\<close>

definition db_ex_unverified :: db where
  "db_ex_unverified =
     db_ex\<lparr>emails := write_email (emails db_ex) (ann_address\<lparr>ea_verified := False\<rparr>)\<rparr>"

definition variant_ex :: email_address_variant where
  "variant_ex =
     \<lparr>var_id = None, var_email = ''eve@a.nl'', var_canonical_email_id = Some 1,
      var_canonical_email = None, var_error = None\<rparr>"

text \<open>
  The example state after user 1 has submitted the single entry \<open>bob@b.nl\<close>, marked
  primary: the unverified address of user 2 was handed over, the old address of user 1
  deleted.
\<close>

definition bob_entry :: email_data where
  "bob_entry = \<lparr>ed_email = ''bob@b.nl'', ed_primary = Some True\<rparr>"


definition db_ex_after :: db where
  "db_ex_after =
     \<lparr>users = [\<lparr>bu_id = 1, bu_email = ''ann@a.nl''\<rparr>, \<lparr>bu_id = 2, bu_email = ''bob@b.nl''\<rparr>],
      emails =
        [\<lparr>ea_id = 2, ea_email = ''bob@b.nl'', ea_user_id = 1, ea_primary = True, ea_verified = False\<rparr>,
         \<lparr>ea_id = 3, ea_email = ''bob@work.nl'', ea_user_id = 2, ea_primary = False, ea_verified = True\<rparr>],
      variants = [],
      outbox = [''bob@b.nl'']\<rparr>"

section \<open>Terms agreements (apps/badgeuser/models.py)\<close>

























section \<open>Group entities and their ranks (apps/badgeuser/models.py)\<close>

text \<open>
  A \<open>GroupEntity\<close> instance. \<open>ge_pk\<close> is None for an instance that was never saved.
  \<open>ge_group\<close> is the id of the group; \<open>ge_rank\<close> may be null.
\<close>

record group_entity =
  ge_pk :: "nat option"
  ge_group :: nat
  ge_entity_id :: "string option"
  ge_rank :: "nat option"

text \<open>
  \<open>queryset.first()\<close>: the first row by primary key, None when the queryset is empty.
  Stored rows have a primary key; \<open>pk_of\<close> reads 0 for a missing one, which never
  occurs in a table.
\<close>

definition pk_of :: "group_entity \<Rightarrow> nat" where
  "pk_of x = (case ge_pk x of None \<Rightarrow> 0 | Some k \<Rightarrow> k)"

definition first_by_pk :: "group_entity list \<Rightarrow> group_entity option" where
  "first_by_pk qs = (case sort_key pk_of qs of [] \<Rightarrow> None | x # _ \<Rightarrow> Some x)"

text \<open>
  The \<open>pre_save\<close> receiver. A model instance is truthy, so \<open>bool(...)\<close> is true exactly
  when \<open>first()\<close> found a row; two model instances are equal when their primary keys are
  equal, and the row found is stored, so it has one.
\<close>

definition check_rank_uniqueness :: "group_entity list \<Rightarrow> group_entity \<Rightarrow> error + unit" where
  "check_rank_uniqueness objects instance =
     (case ge_rank instance of
        None \<Rightarrow> Inr ()
      | Some rank \<Rightarrow>
          (case first_by_pk (filter (\<lambda>x. ge_rank x = Some rank) objects) of
             None \<Rightarrow> Inr ()
           | Some instance_with_same_rank \<Rightarrow>
               if ge_pk instance_with_same_rank \<noteq> ge_pk instance
               then Inl (ValidationError ''Group rank already ascribed, choose another'')
               else Inr ()))"

text \<open>The next primary key the database hands out: greater than every key in the table.\<close>

definition next_ge_pk :: "group_entity list \<Rightarrow> nat" where
  "next_ge_pk objects = Suc (fold max (map pk_of objects) 0)"

text \<open>
  \<open>Model.save\<close> of a GroupEntity: the \<open>pre_save\<close> signal runs first, and its exception
  aborts the save. Then the row is written: updated in place when a row with the
  instance's primary key exists, inserted otherwise, with a new key when the instance
  has none. Returns the new table.
\<close>

definition write_group_entity :: "group_entity list \<Rightarrow> group_entity \<Rightarrow> group_entity list" where
  "write_group_entity objects instance =
     (case ge_pk instance of
        None \<Rightarrow> objects @ [instance\<lparr>ge_pk := Some (next_ge_pk objects)\<rparr>]
      | Some k \<Rightarrow>
          if Some k \<in> set (map ge_pk objects)
          then map (\<lambda>x. if ge_pk x = Some k then instance else x) objects
          else objects @ [instance])"

definition save_group_entity :: "group_entity list \<Rightarrow> group_entity \<Rightarrow> error + group_entity list" where
  "save_group_entity objects instance =
     (case check_rank_uniqueness objects instance of
        Inl e \<Rightarrow> Inl e
      | Inr _ \<Rightarrow> Inr (write_group_entity objects instance))"

definition delete_group_entity :: "group_entity list \<Rightarrow> nat \<Rightarrow> group_entity list" where
  "delete_group_entity objects k = filter (\<lambda>x. ge_pk x \<noteq> Some k) objects"

text \<open>
  The tables that saving and deleting can produce, starting from the empty table.
\<close>

inductive reachable :: "group_entity list \<Rightarrow> bool" where
  empty: "reachable []"
| save: "reachable objects \<Longrightarrow> save_group_entity objects instance = Inr objects' \<Longrightarrow>
           reachable objects'"
| delete: "reachable objects \<Longrightarrow> reachable (delete_group_entity objects k)"

text \<open>Some other stored record holds the rank: a row with another primary key.\<close>

definition other_holds_rank :: "group_entity list \<Rightarrow> group_entity \<Rightarrow> nat \<Rightarrow> bool" where
  "other_holds_rank objects instance rank =
     list_ex (\<lambda>x. ge_rank x = Some rank \<and> ge_pk x \<noteq> ge_pk instance) objects"

text \<open>No two stored records share a rank that is not None.\<close>

definition ranks_unique :: "group_entity list \<Rightarrow> bool" where
  "ranks_unique objects =
     (\<forall>i < length objects. \<forall>j < length objects.
        i \<noteq> j \<longrightarrow> ge_rank (objects ! i) \<noteq> None \<longrightarrow> ge_rank (objects ! i) \<noteq> ge_rank (objects ! j))"

definition group_entity_ex :: group_entity where
  "group_entity_ex = \<lparr>ge_pk = None, ge_group = 7, ge_entity_id = None, ge_rank = Some 3\<rparr>"

text \<open>
  The invariant of the table: every stored row has a primary key, the keys are distinct,
  and rows that share a rank other than None have the same key.
\<close>

definition ge_inv :: "group_entity list \<Rightarrow> bool" where
  "ge_inv objects \<longleftrightarrow>
     (\<forall>x \<in> set objects. ge_pk x \<noteq> None) \<and> distinct (map ge_pk objects) \<and>
     (\<forall>a \<in> set objects. \<forall>b \<in> set objects.
        ge_rank a \<noteq> None \<longrightarrow> ge_rank a = ge_rank b \<longrightarrow> ge_pk a = ge_pk b)"

section \<open>Federated login callback (apps/badgrsocialauth/providers/surf_conext/views.py)\<close>

text \<open>
  The request as the view reads it: the query parameters \<open>state\<close> and \<open>code\<close> (None when
  absent) and whether \<open>request.user\<close> is anonymous.
\<close>

record request =
  GET_state :: "string option"
  GET_code :: "string option"
  user_is_anonymous :: bool

text \<open>
  A JSON object is a dictionary from names to values, None for JSON's null. A response
  has a status code and a body; \<open>body = None\<close> is a body that is no JSON object, on
  which \<open>response.json()\<close> raises ValueError.
\<close>

type_synonym json_object = "(string \<times> string option) list"

record response =
  status_code :: nat
  body :: "json_object option"

record social_app =
  client_id :: string
  secret :: string

text \<open>
  What the view reaches outside itself: the configured social application (None when
  there is none, and \<open>get_current\<close> raises), the provider's token endpoint as a
  function of the application and the code posted, its userinfo endpoint as a function
  of the bearer token, and the primary keys of the stored BadgrApps.
\<close>

record world =
  current_app :: "social_app option"
  token_endpoint :: "social_app \<Rightarrow> string \<Rightarrow> response"
  userinfo_endpoint :: "string \<Rightarrow> response"
  badgr_apps :: "nat list"

text \<open>The five error pages of the view; the status code stands for the formatted message.\<close>

datatype authentication_error =
    NoUserToken
  | TokenEndpointError nat
  | NoAccessToken
  | UserInfoEndpointError nat
  | NoEmail

text \<open>
  The login handed to \<open>complete_social_login\<close>: the process of the state, the user data,
  the BadgrApp put back into the session, and the token of the user the request was
  switched to (the connect process of an anonymous request).
\<close>

record social_login =
  login_process :: string
  login_extra_data :: json_object
  login_badgr_app :: nat
  login_as :: "string option"

datatype http_response =
    RenderAuthenticationError authentication_error
  | CompleteSocialLogin social_login

text \<open>\<open>s.split(sep)\<close> for a one-character separator.\<close>

fun split :: "char \<Rightarrow> string \<Rightarrow> string list" where
  "split sep [] = [[]]"
| "split sep (c # cs) =
     (if c = sep then [] # split sep cs
      else (case split sep cs of [] \<Rightarrow> [[c]] | p # ps \<Rightarrow> (c # p) # ps))"

text \<open>\<open>d.get(key, None)\<close>: None for a missing key and for a null value.\<close>

definition dict_get :: "json_object \<Rightarrow> string \<Rightarrow> string option" where
  "dict_get d key = (case map_of d key of None \<Rightarrow> None | Some v \<Rightarrow> v)"

text \<open>
  The view, in the three steps its comments number. The state of a callback is
  \<open>process-auth_token-badgr_app_pk\<close>.

  Step 3: complete the social login. \<open>BadgrApp.objects.get(pk=badgr_app_pk)\<close> gets the
  key as the string of the state and converts it with \<open>int\<close>: a string that is no
  number (\<open>None\<close>, which \<open>login\<close> writes for a session without BadgrApp) raises
  ValueError, a number that is no stored key raises DoesNotExist.
\<close>

definition complete_login ::
  "world \<Rightarrow> request \<Rightarrow> string \<Rightarrow> string \<Rightarrow> string \<Rightarrow> json_object \<Rightarrow> error + http_response" where
  "complete_login w request process auth_token badgr_app_pk extra_data =
     (case py_int badgr_app_pk of
        Inl e \<Rightarrow> Inl e
      | Inr pk \<Rightarrow>
          if pk \<notin> int ` set (badgr_apps w) then Inl DoesNotExist
          else Inr (CompleteSocialLogin
                 \<lparr>login_process = process,
                  login_extra_data = extra_data,
                  login_badgr_app = nat pk,
                  login_as =
                    (if process = ''connect'' \<and> user_is_anonymous request \<and> auth_token \<noteq> []
                     then Some auth_token else None)\<rparr>))"

text \<open>Step 2: retrieve the user information with the access token.\<close>

definition retrieve_user_information ::
  "world \<Rightarrow> request \<Rightarrow> string \<Rightarrow> string \<Rightarrow> string \<Rightarrow> string \<Rightarrow> error + http_response" where
  "retrieve_user_information w request process auth_token badgr_app_pk access_token =
     (let response = userinfo_endpoint w access_token in
      if status_code response \<noteq> 200
      then Inr (RenderAuthenticationError (UserInfoEndpointError (status_code response)))
      else
        (case body response of
           None \<Rightarrow> Inl ValueError
         | Some extra_data \<Rightarrow>
             if ''email'' \<notin> fst ` set extra_data \<or> ''sub'' \<notin> fst ` set extra_data
             then Inr (RenderAuthenticationError NoEmail)
             else complete_login w request process auth_token badgr_app_pk extra_data))"

text \<open>
  Step 1: exchange the code for an access token. \<open>get_current\<close> raises DoesNotExist
  when no application is configured; \<open>response.json()\<close> raises ValueError.
\<close>

definition exchange_code ::
  "world \<Rightarrow> request \<Rightarrow> string \<Rightarrow> string \<Rightarrow> string \<Rightarrow> string \<Rightarrow> error + http_response" where
  "exchange_code w request process auth_token badgr_app_pk code =
     (case current_app w of
        None \<Rightarrow> Inl DoesNotExist
      | Some app \<Rightarrow>
          (let response = token_endpoint w app code in
           if status_code response \<noteq> 200
           then Inr (RenderAuthenticationError (TokenEndpointError (status_code response)))
           else
             (case body response of
                None \<Rightarrow> Inl ValueError
              | Some data \<Rightarrow>
                  (case dict_get data ''access_token'' of
                     None \<Rightarrow> Inr (RenderAuthenticationError NoAccessToken)
                   | Some access_token \<Rightarrow>
                       retrieve_user_information w request process auth_token badgr_app_pk
                         access_token))))"

text \<open>
  The view. The state is split and unpacked before anything is checked: a missing state
  raises AttributeError (\<open>None.split\<close>), a state that does not have exactly three parts
  raises ValueError.
\<close>

definition callback :: "world \<Rightarrow> request \<Rightarrow> error + http_response" where
  "callback w request =
     (case GET_state request of
        None \<Rightarrow> Inl AttributeError
      | Some state \<Rightarrow>
          (case split CHR ''-'' state of
             [process, auth_token, badgr_app_pk] \<Rightarrow>
               (case GET_code request of
                  None \<Rightarrow> Inr (RenderAuthenticationError NoUserToken)
                | Some code \<Rightarrow> exchange_code w request process auth_token badgr_app_pk code)
           | _ \<Rightarrow> Inl ValueError))"

text \<open>A request without query parameters, and a provider that answers every call.\<close>

definition bare_request :: request where
  "bare_request = \<lparr>GET_state = None, GET_code = None, user_is_anonymous = True\<rparr>"

definition world_ex :: world where
  "world_ex =
     \<lparr>current_app = Some \<lparr>client_id = ''badgr'', secret = ''s''\<rparr>,
      token_endpoint = (\<lambda>app code. \<lparr>status_code = 200,
                          body = Some [(''access_token'', Some ''t'')]\<rparr>),
      userinfo_endpoint = (\<lambda>token. \<lparr>status_code = 200,
                          body = Some [(''email'', Some ''a@b.nl''), (''sub'', Some ''u1'')]\<rparr>),
      badgr_apps = [1]\<rparr>"

section \<open>Lists\<close>

lemma fold_max_ge: "(m::nat) \<le> fold max ks m"
proof (induction ks arbitrary: m)
  case Nil
  show ?case by simp
next
  case (Cons a ks)
  have "m \<le> max a m" by simp
  also have "max a m \<le> fold max ks (max a m)" by (rule Cons.IH)
  finally show ?case by simp
qed

lemma fold_max_mem: "k \<in> set ks \<Longrightarrow> (k::nat) \<le> fold max ks m"
proof (induction ks arbitrary: m)
  case Nil
  then show ?case by simp
next
  case (Cons a ks)
  show ?case
  proof (cases "k = a")
    case True
    have "max a m \<le> fold max ks (max a m)" by (rule fold_max_ge)
    with True show ?thesis by simp
  next
    case False
    with Cons show ?thesis by simp
  qed
qed

section \<open>Properties of the permission merge\<close>

lemma max_if: "(if (lv::'a::linorder) > pv then lv else pv) = max lv pv"
  by (auto simp: max_def)

lemma combine_loop_Inr:
  assumes "set ks \<subseteq> dom (map_of l)" and "set ks \<subseteq> dom (map_of p)"
  shows "\<exists>c. combine_loop l p ks acc = Inr c \<and>
           map_of c = (\<lambda>k. if k \<in> set ks
                           then Some (max (the (map_of l k)) (the (map_of p k)))
                           else map_of acc k)"
  using assms
proof (induction ks arbitrary: acc)
  case Nil
  then show ?case by simp
next
  case (Cons k ks)
  from Cons.prems obtain a b where a: "map_of l k = Some a" and b: "map_of p k = Some b"
    by auto
  from Cons.prems have sub: "set ks \<subseteq> dom (map_of l)" "set ks \<subseteq> dom (map_of p)"
    by auto
  from Cons.IH [OF sub, of "AList.update k (max a b) acc"]
  obtain c where c: "combine_loop l p ks (AList.update k (max a b) acc) = Inr c"
    and m: "map_of c = (\<lambda>k'. if k' \<in> set ks
                           then Some (max (the (map_of l k')) (the (map_of p k')))
                           else map_of (AList.update k (max a b) acc) k')"
    by blast
  have "combine_loop l p (k # ks) acc = Inr c"
    using a b c by (simp add: getitem_def max_if)
  moreover have "map_of c = (\<lambda>k'. if k' \<in> set (k # ks)
                           then Some (max (the (map_of l k')) (the (map_of p k')))
                           else map_of acc k')"
    using m a b by (auto simp: fun_eq_iff update_conv')
  ultimately show ?case by blast
qed

lemma combine_loop_KeyError:
  assumes "set ks \<subseteq> dom (map_of l)" and "\<not> set ks \<subseteq> dom (map_of p)"
  shows "combine_loop l p ks acc = Inl KeyError"
  using assms
proof (induction ks arbitrary: acc)
  case Nil
  then show ?case by simp
next
  case (Cons k ks)
  then obtain a where a: "map_of l k = Some a" by auto
  show ?case
  proof (cases "map_of p k")
    case None
    then show ?thesis using a by (simp add: getitem_def)
  next
    case (Some b)
    with Cons.prems have "\<not> set ks \<subseteq> dom (map_of p)" "set ks \<subseteq> dom (map_of l)" by auto
    from Cons.IH [OF this(2) this(1)] show ?thesis using a Some by (simp add: getitem_def)
  qed
qed

lemma combine_all_Inr:
  assumes "fst ` set l \<subseteq> fst ` set pp"
  shows "\<exists>c. combine_loop l pp (map fst l) [] = Inr c \<and>
           map_of c = (\<lambda>k. if k \<in> fst ` set l
                           then Some (max (the (map_of l k)) (the (map_of pp k)))
                           else None)"
proof -
  have "set (map fst l) \<subseteq> dom (map_of l)" "set (map fst l) \<subseteq> dom (map_of pp)"
    using assms by (simp_all add: dom_map_of_conv_image_fst)
  from combine_loop_Inr [OF this, of "[]"] show ?thesis by (auto simp: fun_eq_iff)
qed

lemma combine_all_KeyError:
  assumes "\<not> fst ` set l \<subseteq> fst ` set pp"
  shows "combine_loop l pp (map fst l) [] = Inl KeyError"
proof -
  have "set (map fst l) \<subseteq> dom (map_of l)" "\<not> set (map fst l) \<subseteq> dom (map_of pp)"
    using assms by (simp_all add: dom_map_of_conv_image_fst)
  from combine_loop_KeyError [OF this] show ?thesis .
qed

lemma get_permissions_step:
  assumes "get_permissions p u = Inr (Some pp)" and "pp \<noteq> []"
    and "get_local_permissions (Node staff (Some p)) u = Some l" and "l \<noteq> []"
  shows "get_permissions (Node staff (Some p)) u =
           (case combine_loop l pp (map fst l) [] of
              Inl e \<Rightarrow> Inl e | Inr c \<Rightarrow> Inr (Some c))"
  using assms by (simp add: py_not_def)

text \<open>
  Claim C2. When the local dictionary and the parent's result are both non-empty, the
  merged dictionary has exactly the keys of the local dictionary, each with the maximum
  of the local value and the parent's value. A local key that the parent's result
  lacks makes the merge raise KeyError; a key of the parent's result that the local
  dictionary lacks is not in the merged dictionary.
\<close>

theorem get_permissions_merge_keys:
  assumes "get_permissions p u = Inr (Some pp)" and "pp \<noteq> []"
    and "get_local_permissions (Node staff (Some p)) u = Some l" and "l \<noteq> []"
  shows "if fst ` set l \<subseteq> fst ` set pp
         then \<exists>c. get_permissions (Node staff (Some p)) u = Inr (Some c) \<and>
                  fst ` set c = fst ` set l \<and>
                  (\<forall>key a b. map_of l key = Some a \<longrightarrow> map_of pp key = Some b \<longrightarrow>
                     map_of c key = Some (max a b)) \<and>
                  (\<forall>key. key \<notin> fst ` set l \<longrightarrow> map_of c key = None)
         else get_permissions (Node staff (Some p)) u = Inl KeyError"
proof (cases "fst ` set l \<subseteq> fst ` set pp")
  case True
  from combine_all_Inr [OF True] obtain c where
    c: "combine_loop l pp (map fst l) [] = Inr c" and
    m: "map_of c = (\<lambda>k. if k \<in> fst ` set l
                           then Some (max (the (map_of l k)) (the (map_of pp k)))
                           else None)"
    by blast
  have g: "get_permissions (Node staff (Some p)) u = Inr (Some c)"
    using get_permissions_step [OF assms] c by simp
  have "dom (map_of c) = fst ` set l"
    unfolding m by (force split: if_splits)
  then have k: "fst ` set c = fst ` set l"
    by (simp add: dom_map_of_conv_image_fst)
  have v: "\<forall>key a b. map_of l key = Some a \<longrightarrow> map_of pp key = Some b \<longrightarrow>
             map_of c key = Some (max a b)"
    unfolding m by (auto dest: map_of_SomeD intro: rev_image_eqI)
  have d: "\<forall>key. key \<notin> fst ` set l \<longrightarrow> map_of c key = None"
    unfolding m by simp
  from True g k v d show ?thesis by simp
next
  case False
  from combine_all_KeyError [OF False] get_permissions_step [OF assms] False
  show ?thesis by simp
qed

text \<open>Witness for C2: the parent has both keys, the local dictionary one of them.\<close>

theorem get_permissions_merge_keys_witness:
  "get_permissions institution_ex 1 = Inr (Some [(''may_read'', True), (''may_award'', False)]) \<and>
   get_local_permissions subset_ex 1 = Some [(''may_read'', False)] \<and>
   (\<exists>c. get_permissions subset_ex 1 = Inr (Some c) \<and> fst ` set c = {''may_read''} \<and>
        map_of c ''may_read'' = Some True \<and> map_of c ''may_award'' = None)"
proof -
  let ?pp = "[(''may_read'', True), (''may_award'', False)]"
  let ?l = "[(''may_read'', False)]"
  let ?staff = "[\<lparr>staff_user = 1, staff_permissions = ?l\<rparr>]"
  have p: "get_permissions institution_ex 1 = Inr (Some ?pp)"
    by (simp add: institution_ex_def get_local_permissions_def get_staff_member_def)
  have l: "get_local_permissions (Node ?staff (Some institution_ex)) 1 = Some ?l"
    by (simp add: get_local_permissions_def get_staff_member_def)
  have ne: "?pp \<noteq> []" "?l \<noteq> []" by simp_all
  have sub: "fst ` set ?l \<subseteq> fst ` set ?pp" by simp
  have "if fst ` set ?l \<subseteq> fst ` set ?pp
         then \<exists>c. get_permissions (Node ?staff (Some institution_ex)) 1 = Inr (Some c) \<and>
                  fst ` set c = fst ` set ?l \<and>
                  (\<forall>key a b. map_of ?l key = Some a \<longrightarrow> map_of ?pp key = Some b \<longrightarrow>
                     map_of c key = Some (max a b)) \<and>
                  (\<forall>key. key \<notin> fst ` set ?l \<longrightarrow> map_of c key = None)
         else get_permissions (Node ?staff (Some institution_ex)) 1 = Inl KeyError"
    by (rule get_permissions_merge_keys [OF p ne(1) l ne(2)])
  with sub obtain c where
    g: "get_permissions (Node ?staff (Some institution_ex)) 1 = Inr (Some c)" and
    k: "fst ` set c = fst ` set ?l" and
    v: "\<forall>key a b. map_of ?l key = Some a \<longrightarrow> map_of ?pp key = Some b \<longrightarrow>
          map_of c key = Some (max a b)" and
    d: "\<forall>key. key \<notin> fst ` set ?l \<longrightarrow> map_of c key = None"
    by (simp only: if_True) blast
  have m1: "map_of ?l ''may_read'' = Some False" and m2: "map_of ?pp ''may_read'' = Some True"
    by simp_all
  from v m1 m2 have r: "map_of c ''may_read'' = Some (max False True)" by blast
  have "''may_award'' \<notin> fst ` set ?l" by simp
  with d have a: "map_of c ''may_award'' = None" by blast
  from k have k': "fst ` set c = {''may_read''}" by simp
  from r have r': "map_of c ''may_read'' = Some True" by simp
  from g have g': "get_permissions subset_ex 1 = Inr (Some c)" by (simp only: subset_ex_def)
  from l have l': "get_local_permissions subset_ex 1 = Some ?l" by (simp only: subset_ex_def)
  from p l' g' k' r' a show ?thesis by blast
qed

lemma max_wins_simps:
  "max_wins None None = None"
  "max_wins (Some l) None = Some l"
  "max_wins None (Some p) = Some p"
  by (simp_all add: max_wins_def)

text \<open>
  Claim C1, as amended. Provided every staff permission dictionary of the user on the
  path from the node to the root has one and the same non-empty key set,
  \<open>get_permissions\<close> returns the recursive max-wins merge: per key the maximum of the
  local value and the value returned for the parent, the one existing side unchanged
  when the other is None, and None when neither exists. A dictionary it returns has
  that key set again.
\<close>

theorem get_permissions_max_wins:
  assumes "K \<noteq> {}"
    and "\<forall>n \<in> set (ancestors self). \<forall>d. get_local_permissions n u = Some d \<longrightarrow> fst ` set d = K"
  shows "\<exists>r. get_permissions self u = Inr r \<and> (\<forall>d. r = Some d \<longrightarrow> fst ` set d = K) \<and>
           map_option map_of r = merged_permissions self u"
  using assms(2)
proof (induction self u rule: get_permissions.induct)
  case (1 staff u)
  then show ?case by simp
next
  case (2 staff p u)
  let ?self = "Node staff (Some p)"
  from "2.prems" have anc: "\<forall>n \<in> set (ancestors p). \<forall>d. get_local_permissions n u = Some d \<longrightarrow> fst ` set d = K"
    by simp
  from "2.prems" have loc: "\<forall>d. get_local_permissions ?self u = Some d \<longrightarrow> fst ` set d = K"
    by simp
  from "2.IH" [OF anc] obtain r where
    r: "get_permissions p u = Inr r" and
    rk: "\<forall>d. r = Some d \<longrightarrow> fst ` set d = K" and
    rm: "map_option map_of r = merged_permissions p u"
    by blast
  show ?case
  proof (cases r)
    case None
    with r rm [symmetric] loc show ?thesis
      by (cases "get_local_permissions ?self u") (simp_all add: py_not_def max_wins_simps)
  next
    case (Some pp)
    with rk assms(1) have ppk: "fst ` set pp = K" and ppne: "pp \<noteq> []" by auto
    show ?thesis
    proof (cases "get_local_permissions ?self u")
      case None
      with r rm [symmetric] Some ppk ppne show ?thesis
        by (simp add: py_not_def max_wins_simps)
    next
      case (Some l)
      with loc assms(1) have lk: "fst ` set l = K" and lne: "l \<noteq> []" by auto
      from lk ppk have sub: "fst ` set l \<subseteq> fst ` set pp" by simp
      from combine_all_Inr [OF sub] obtain c where
        c: "combine_loop l pp (map fst l) [] = Inr c" and
        m: "map_of c = (\<lambda>k. if k \<in> fst ` set l
                           then Some (max (the (map_of l k)) (the (map_of pp k)))
                           else None)"
        by blast
      have g: "get_permissions ?self u = Inr (Some c)"
        using get_permissions_step [OF _ ppne Some lne] r \<open>r = Some pp\<close> c by simp
      have "dom (map_of c) = fst ` set l"
        unfolding m by (force split: if_splits)
      then have ck: "fst ` set c = K"
        using lk by (simp add: dom_map_of_conv_image_fst)
      have mm: "merged_permissions ?self u = max_wins (Some (map_of l)) (Some (map_of pp))"
        using Some rm [symmetric] \<open>r = Some pp\<close> by simp
      have eq: "map_of c = (\<lambda>key. case (map_of l key, map_of pp key) of
                         (None, None) \<Rightarrow> None
                       | (Some a, None) \<Rightarrow> Some a
                       | (None, Some b) \<Rightarrow> Some b
                       | (Some a, Some b) \<Rightarrow> Some (max a b))"
      proof
        fix key
        show "map_of c key = (case (map_of l key, map_of pp key) of
                         (None, None) \<Rightarrow> None
                       | (Some a, None) \<Rightarrow> Some a
                       | (None, Some b) \<Rightarrow> Some b
                       | (Some a, Some b) \<Rightarrow> Some (max a b))"
        proof (cases "key \<in> K")
          case True
          with lk ppk have "key \<in> dom (map_of l)" "key \<in> dom (map_of pp)"
            by (simp_all add: dom_map_of_conv_image_fst)
          then obtain a b where "map_of l key = Some a" "map_of pp key = Some b" by auto
          with True lk show ?thesis unfolding m by simp
        next
          case False
          with lk ppk have "key \<notin> dom (map_of l)" "key \<notin> dom (map_of pp)"
            by (simp_all add: dom_map_of_conv_image_fst)
          then have "map_of l key = None" "map_of pp key = None" by auto
          with False lk show ?thesis unfolding m by simp
        qed
      qed
      from g ck mm eq show ?thesis by (simp add: max_wins_def)
    qed
  qed
qed

lemma issuer_ex_permissions:
  "get_permissions issuer_ex 1 = Inr (Some [(''may_read'', True), (''may_award'', True)])"
  by (simp add: issuer_ex_def faculty_ex_def institution_ex_def get_local_permissions_def
      get_staff_member_def py_not_def getitem_def)

text \<open>Witness for C1: Institution, Faculty and Issuer; the user is staff of the first and the last.\<close>

theorem get_permissions_max_wins_witness:
  "get_permissions issuer_ex 1 = Inr (Some [(''may_read'', True), (''may_award'', True)]) \<and>
   merged_permissions issuer_ex 1 = Some (map_of [(''may_read'', True), (''may_award'', True)])"
proof -
  have k: "{''may_read'', ''may_award''} \<noteq> ({} :: string set)" by simp
  have h: "\<forall>n \<in> set (ancestors issuer_ex). \<forall>d. get_local_permissions n 1 = Some d \<longrightarrow>
             fst ` set d = {''may_read'', ''may_award''}"
    by (auto simp: issuer_ex_def faculty_ex_def institution_ex_def get_local_permissions_def
        get_staff_member_def)
  from get_permissions_max_wins [OF k h] issuer_ex_permissions show ?thesis by auto
qed

text \<open>
  Counterexample to C1 as stated: the local dictionary has a key the parent's lacks.
  The merge of the specification keeps both keys; the code raises KeyError.
\<close>

theorem get_permissions_max_wins_counterexample:
  "get_permissions mismatch_ex 1 = Inl KeyError \<and>
   (case merged_permissions mismatch_ex 1 of
      None \<Rightarrow> False
    | Some m \<Rightarrow> m ''may_read'' = Some True \<and> m ''may_award'' = Some True)"
  by (simp add: mismatch_ex_def get_local_permissions_def get_staff_member_def py_not_def
      getitem_def max_wins_def)

section \<open>Properties of email addresses and variants\<close>

lemma lower_char_idem: "lower_char (lower_char c) = lower_char c"
proof (cases "is_upper (of_char c)")
  case True
  then have l: "lower_char c = char_of ((of_char c :: nat) + 32)"
    by (simp add: lower_char_def)
  from True have "((of_char c :: nat) + 32) mod 256 = of_char c + 32"
    by (auto simp: is_upper_def)
  then have "(of_char (char_of ((of_char c :: nat) + 32)) :: nat) = of_char c + 32"
    by (simp only: of_char_of)
  with True have "\<not> is_upper (of_char (char_of ((of_char c :: nat) + 32)))"
    by (auto simp: is_upper_def)
  then have "lower_char (char_of ((of_char c :: nat) + 32)) = char_of ((of_char c :: nat) + 32)"
    unfolding lower_char_def by (rule if_not_P)
  with l show ?thesis by simp
next
  case False
  then have "lower_char c = c" unfolding lower_char_def by (rule if_not_P)
  then show ?thesis by simp
qed

lemma lower_idem: "lower (lower s) = lower s"
  by (simp add: lower_def lower_char_idem)

lemma get_one_Inr: "get_one xs = Inr r \<longleftrightarrow> xs = [r]"
  by (auto simp: get_one_def split: list.splits)

lemma get_one_DoesNotExist: "get_one xs = Inl DoesNotExist \<longleftrightarrow> xs = []"
  by (auto simp: get_one_def split: list.splits)

lemma get_one_cases:
  "get_one xs = Inl DoesNotExist \<or> get_one xs = Inl MultipleObjectsReturned \<or> (\<exists>r. get_one xs = Inr r)"
  by (auto simp: get_one_def split: list.splits)

lemma filter_key_single:
  assumes "distinct (map f xs)" and "x \<in> set xs"
  shows "filter (\<lambda>r. f r = f x) xs = [x]"
  using assms
proof (induction xs)
  case Nil
  then show ?case by simp
next
  case (Cons a xs)
  show ?case
  proof (cases "a = x")
    case True
    from Cons.prems(1) have "f a \<notin> f ` set xs" by simp
    then have "\<forall>r \<in> set xs. f r \<noteq> f a" by (metis imageI)
    then have "filter (\<lambda>r. f r = f a) xs = []" by (simp add: filter_empty_conv)
    with True show ?thesis by simp
  next
    case False
    with Cons.prems have x: "x \<in> set xs" and d: "distinct (map f xs)" by auto
    from Cons.prems(1) x have "f a \<noteq> f x" by auto
    with Cons.IH [OF d x] show ?thesis by simp
  qed
qed

lemma write_email_fresh:
  "ea_id x \<notin> set (map ea_id tbl) \<Longrightarrow> write_email tbl x = tbl @ [x]"
  by (simp add: write_email_def)

lemma write_email_ids:
  "ea_id x \<in> set (map ea_id tbl) \<Longrightarrow> map ea_id (write_email tbl x) = map ea_id tbl"
  by (auto simp: write_email_def)

lemma write_email_ids_set:
  "set (map ea_id (write_email tbl x)) = insert (ea_id x) (set (map ea_id tbl))"
proof (cases "ea_id x \<in> set (map ea_id tbl)")
  case True
  from write_email_ids [OF True] True show ?thesis by (simp only: insert_absorb)
next
  case False
  then show ?thesis by (simp add: write_email_fresh)
qed

lemma write_email_distinct:
  "distinct (map ea_id tbl) \<Longrightarrow> distinct (map ea_id (write_email tbl x))"
proof (cases "ea_id x \<in> set (map ea_id tbl)")
  case True
  assume "distinct (map ea_id tbl)"
  with write_email_ids [OF True] show ?thesis by simp
next
  case False
  assume "distinct (map ea_id tbl)"
  with False show ?thesis by (simp add: write_email_fresh)
qed

lemma write_email_replace_set:
  assumes d: "distinct (map ea_id tbl)" and a: "a \<in> set tbl" and i: "ea_id x = ea_id a"
  shows "set (write_email tbl x) = insert x (set tbl - {a})"
proof -
  from a i have m: "ea_id x \<in> set (map ea_id tbl)" by force
  have other: "\<And>r. r \<in> set tbl \<Longrightarrow> ea_id r = ea_id x \<Longrightarrow> r = a"
  proof -
    fix r assume "r \<in> set tbl" "ea_id r = ea_id x"
    with d a i show "r = a" by (metis distinct_map inj_onD)
  qed
  have "set (map (\<lambda>r. if ea_id r = ea_id x then x else r) tbl) = insert x (set tbl - {a})"
  proof (intro set_eqI iffI)
    fix y assume "y \<in> set (map (\<lambda>r. if ea_id r = ea_id x then x else r) tbl)"
    then obtain r where r: "r \<in> set tbl" "y = (if ea_id r = ea_id x then x else r)" by auto
    show "y \<in> insert x (set tbl - {a})"
    proof (cases "ea_id r = ea_id x")
      case True with r show ?thesis by simp
    next
      case False
      with i have "r \<noteq> a" by auto
      with r False show ?thesis by simp
    qed
  next
    fix y assume y: "y \<in> insert x (set tbl - {a})"
    show "y \<in> set (map (\<lambda>r. if ea_id r = ea_id x then x else r) tbl)"
    proof (cases "y = x")
      case True
      have "(if ea_id a = ea_id x then x else a) \<in> (\<lambda>r. if ea_id r = ea_id x then x else r) ` set tbl"
        using a by (rule imageI)
      with True i show ?thesis by simp
    next
      case False
      with y have yt: "y \<in> set tbl" "y \<noteq> a" by auto
      with other have n: "ea_id y \<noteq> ea_id x" by blast
      have "(if ea_id y = ea_id x then x else y) \<in>
              (\<lambda>r. if ea_id r = ea_id x then x else r) ` set tbl"
        using yt(1) by (rule imageI)
      with n show ?thesis by simp
    qed
  qed
  with m show ?thesis by (simp add: write_email_def)
qed

lemma write_email_filter_id:
  assumes "distinct (map ea_id tbl)"
  shows "filter (\<lambda>r. ea_id r = ea_id x) (write_email tbl x) = [x]"
proof -
  have d: "distinct (map ea_id (write_email tbl x))"
    using assms by (rule write_email_distinct)
  have "ea_id x \<in> set (map ea_id (write_email tbl x))"
    by (simp only: write_email_ids_set) simp
  then obtain y where y: "y \<in> set (write_email tbl x)" "ea_id y = ea_id x" by auto
  have "y = x"
  proof (cases "ea_id x \<in> set (map ea_id tbl)")
    case True
    with y show ?thesis by (auto simp: write_email_def split: if_splits)
  next
    case False
    from y(1) False have "y \<in> set tbl \<or> y = x" by (auto simp: write_email_fresh)
    moreover have "y \<notin> set tbl"
    proof
      assume "y \<in> set tbl"
      then have "ea_id y \<in> set (map ea_id tbl)" by simp
      with y(2) False show False by simp
    qed
    ultimately show ?thesis by simp
  qed
  with y have "x \<in> set (write_email tbl x)" by simp
  from filter_key_single [OF d this] show ?thesis .
qed

lemma write_email_idem: "write_email (write_email tbl x) x = write_email tbl x"
proof (cases "ea_id x \<in> set (map ea_id tbl)")
  case True
  have "ea_id x \<in> set (map ea_id (write_email tbl x))"
    by (simp only: write_email_ids_set) simp
  then have "write_email (write_email tbl x) x =
               map (\<lambda>r. if ea_id r = ea_id x then x else r) (write_email tbl x)"
    by (simp add: write_email_def)
  also have "\<dots> = map (\<lambda>r. if ea_id r = ea_id x then x else r)
                      (map (\<lambda>r. if ea_id r = ea_id x then x else r) tbl)"
    using True by (simp add: write_email_def)
  also have "\<dots> = map (\<lambda>r. if ea_id r = ea_id x then x else r) tbl"
    by (induction tbl) auto
  also have "\<dots> = write_email tbl x" using True by (simp add: write_email_def)
  finally show ?thesis .
next
  case False
  then have "\<And>r. r \<in> set tbl \<Longrightarrow> ea_id r \<noteq> ea_id x" by (metis imageI set_map)
  then have "map (\<lambda>r. if ea_id r = ea_id x then x else r) tbl = tbl"
    by (intro map_idI) simp
  with False show ?thesis by (simp add: write_email_def)
qed

lemma get_by_pk_write_email:
  "distinct (map ea_id tbl) \<Longrightarrow> get_by_pk (write_email tbl x) (ea_id x) = Inr x"
  by (simp add: get_by_pk_def write_email_filter_id get_one_def)

lemma variant_exists_after_write:
  "list_ex (\<lambda>v. var_canonical_email_id v = var_canonical_email_id x) (write_variant tbl x)"
proof (cases "var_id x")
  case None
  then show ?thesis by (simp add: write_variant_def list_ex_iff Let_def)
next
  case (Some k)
  let ?row = "x\<lparr>var_canonical_email := None, var_error := None\<rparr>"
  show ?thesis
  proof (cases "Some k \<in> set (map var_id tbl)")
    case True
    then obtain v where v: "v \<in> set tbl" "var_id v = Some k" by auto
    have "(if var_id v = Some k then ?row else v) \<in>
            (\<lambda>v. if var_id v = Some k then ?row else v) ` set tbl"
      using v(1) by (rule imageI)
    with v(2) have "?row \<in> set (map (\<lambda>v. if var_id v = Some k then ?row else v) tbl)" by simp
    moreover have "var_canonical_email_id ?row = var_canonical_email_id x" by simp
    ultimately have "\<exists>r \<in> set (map (\<lambda>v. if var_id v = Some k then ?row else v) tbl).
                       var_canonical_email_id r = var_canonical_email_id x" by blast
    with Some True show ?thesis by (simp add: write_variant_def list_ex_iff Let_def)
  next
    case False
    with Some show ?thesis by (simp add: write_variant_def list_ex_iff Let_def)
  qed
qed

lemma cached_email_save_exists:
  assumes "emailaddressvariant_set_exists (d\<lparr>emails := write_email (emails d) self\<rparr>) self \<or>
           ea_email self = lower (ea_email self)"
  shows "cached_email_save (Suc n) self d = (Inr (), d\<lparr>emails := write_email (emails d) self\<rparr>)"
  using assms by (auto simp: Let_def)

lemma canonical_email_held:
  "var_canonical_email self = Some c \<Longrightarrow> canonical_email d self = (Inr c, self)"
  by (simp add: canonical_email_def)

lemma cached_email_save_ok:
  assumes dist: "distinct (map ea_id (emails d))" and nz: "ea_id self \<noteq> 0"
  shows "\<exists>d'. cached_email_save (Suc (Suc (Suc (Suc n)))) self d = (Inr (), d') \<and>
              emails d' = write_email (emails d) self \<and> users d' = users d \<and>
              outbox d' = outbox d"
proof (cases "emailaddressvariant_set_exists (d\<lparr>emails := write_email (emails d) self\<rparr>) self \<or>
           ea_email self = lower (ea_email self)")
  case True
  from cached_email_save_exists [OF True] show ?thesis by simp
next
  case False
  let ?d1 = "d\<lparr>emails := write_email (emails d) self\<rparr>"
  let ?new = "\<lparr>var_id = None, var_email = lower (ea_email self),
               var_canonical_email_id = Some (ea_id self), var_canonical_email = Some self,
               var_error = None\<rparr>"
  let ?d2 = "?d1\<lparr>variants := write_variant (variants ?d1) ?new\<rparr>"
  let ?d3 = "?d2\<lparr>emails := write_email (emails ?d2) self\<rparr>"
  from False have nv: "\<not> emailaddressvariant_set_exists ?d1 self"
    and nl: "ea_email self \<noteq> lower (ea_email self)" by simp_all
  have s1: "cached_email_save (Suc (Suc (Suc (Suc n)))) self d =
              add_variant (Suc (Suc (Suc n))) self (lower (ea_email self)) ?d1"
    using nv nl by (simp add: Let_def)
  from nv have "filter (\<lambda>v. var_canonical_email_id v = Some (ea_id self) \<and>
                     var_email v = lower (ea_email self)) (variants ?d1) = []"
    by (auto simp: emailaddressvariant_set_exists_def list_ex_iff filter_empty_conv)
  then have s2: "add_variant (Suc (Suc (Suc n))) self (lower (ea_email self)) ?d1 =
                   variant_save (Suc (Suc n)) ?new ?d1"
    by (simp add: Let_def)
  have c: "canonical_email dd ?new = (Inr self, ?new)" for dd
    by (rule canonical_email_held) simp
  have v: "is_valid ?d1 ?new True = Inr (True, ?new)"
    using nz by (simp add: is_valid_def no_id_def lower_idem c)
  have s3: "variant_save (Suc (Suc n)) ?new ?d1 = cached_email_save (Suc n) self ?d2"
    using v by (simp add: Let_def c)
  have ex: "emailaddressvariant_set_exists ?d3 self"
    using variant_exists_after_write [of ?new "variants d"]
    by (simp add: emailaddressvariant_set_exists_def)
  have s4: "cached_email_save (Suc n) self ?d2 = (Inr (), ?d3)"
    by (rule cached_email_save_exists) (use ex in simp)
  have "emails ?d3 = write_email (emails d) self" by (simp add: write_email_idem)
  moreover have "users ?d3 = users d" "outbox ?d3 = outbox d" by simp_all
  ultimately show ?thesis using s1 s2 s3 s4 by (intro exI [of _ ?d3]) simp
qed

lemma recursion_limit_Suc: "recursion_limit = Suc (Suc (Suc (Suc 996)))"
  by (simp add: recursion_limit_def)

lemma cached_email_save_limit:
  assumes "distinct (map ea_id (emails d))" and "ea_id self \<noteq> 0"
  shows "\<exists>d'. cached_email_save recursion_limit self d = (Inr (), d') \<and>
              emails d' = write_email (emails d) self \<and> users d' = users d \<and>
              outbox d' = outbox d"
  unfolding recursion_limit_Suc using assms by (rule cached_email_save_ok)

lemma get_one_mem: "get_one xs = Inr r \<Longrightarrow> r \<in> set xs"
  by (simp add: get_one_Inr)

lemma get_by_pk_D: "get_by_pk tbl pk = Inr c \<Longrightarrow> c \<in> set tbl \<and> ea_id c = pk"
  unfolding get_by_pk_def by (drule get_one_mem) simp

lemma get_by_email_D: "get_by_email tbl email = Inr c \<Longrightarrow> c \<in> set tbl \<and> ea_email c = email"
  unfolding get_by_email_def by (drule get_one_mem) simp

text \<open>What a read of \<open>canonical_email\<close> leaves on the instance.\<close>

lemma canonical_email_Inr:
  assumes "canonical_email d self = (Inr c, self1)"
  shows "self1 = self\<lparr>var_canonical_email := Some c\<rparr>"
proof (cases "var_canonical_email self")
  case (Some c')
  with assms show ?thesis by (simp add: canonical_email_def)
next
  case None
  with assms show ?thesis
    by (auto simp: canonical_email_def split: option.splits sum.splits)
qed

lemma canonical_email_Inl:
  "canonical_email d self = (Inl e, self1) \<Longrightarrow> self1 = self"
  by (auto simp: canonical_email_def split: option.splits sum.splits)

lemma canonical_email_fst:
  "fst (canonical_email d self) = Inr c \<Longrightarrow>
   canonical_email d self = (Inr c, self\<lparr>var_canonical_email := Some c\<rparr>)"
  using canonical_email_Inr [of d self c "snd (canonical_email d self)"]
  by (cases "canonical_email d self") simp

lemma canonical_email_dangling:
  assumes "var_canonical_email self = None" and "var_canonical_email_id self = Some pk"
    and "\<forall>r \<in> set (emails d). ea_id r \<noteq> pk"
  shows "canonical_email d self = (Inl DoesNotExist, self)"
proof -
  from assms(3) have "filter (\<lambda>r. ea_id r = pk) (emails d) = []"
    by (simp add: filter_empty_conv)
  with assms(1,2) show ?thesis by (simp add: canonical_email_def get_by_pk_def get_one_def)
qed

lemma is_valid_not_found:
  assumes "no_id (var_canonical_email_id self)"
    and "get_by_email (emails d) (var_email self) = Inl DoesNotExist"
  shows "is_valid d self True = Inl (ValidationError ''Canonical Email Address not found'')"
  using assms by (simp add: is_valid_def fail_def)

lemma is_valid_keyed:
  assumes "\<not> no_id (var_canonical_email_id self)"
  shows "is_valid d self True =
           (case canonical_email d self of
              (Inl e, self2) \<Rightarrow> Inl e
            | (Inr c, self2) \<Rightarrow>
                if lower (ea_email c) = lower (var_email self2) then Inr (True, self2)
                else Inl (ValidationError
                       ''New EmailAddressVariant does not match stored email address.''))"
  using assms by (auto simp: is_valid_def fail_def split: prod.splits sum.splits)

lemma is_valid_found:
  assumes "no_id (var_canonical_email_id self)"
    and "get_by_email (emails d) (var_email self) = Inr c"
  shows "is_valid d self True = Inr (True, set_canonical_email c self)"
proof -
  have h: "var_canonical_email (set_canonical_email c self) = Some c"
    by (simp add: set_canonical_email_def)
  have e: "ea_email c = var_email self" using assms(2) by (simp add: get_by_email_D)
  have "var_email (set_canonical_email c self) = var_email self"
    by (simp add: set_canonical_email_def)
  with assms e show ?thesis
    by (simp add: is_valid_def canonical_email_held [OF h])
qed

lemma is_valid_mismatch:
  assumes "\<not> no_id (var_canonical_email_id self)"
    and "fst (canonical_email d self) = Inr c"
    and "lower (ea_email c) \<noteq> lower (var_email self)"
  shows "is_valid d self True =
           Inl (ValidationError ''New EmailAddressVariant does not match stored email address.'')"
  using assms(3) by (simp add: is_valid_keyed [OF assms(1)] canonical_email_fst [OF assms(2)])

lemma is_valid_match:
  assumes "\<not> no_id (var_canonical_email_id self)"
    and "fst (canonical_email d self) = Inr c"
    and "lower (ea_email c) = lower (var_email self)"
  shows "is_valid d self True = Inr (True, self\<lparr>var_canonical_email := Some c\<rparr>)"
  using assms(3) by (simp add: is_valid_keyed [OF assms(1)] canonical_email_fst [OF assms(2)])

text \<open>
  When \<open>is_valid\<close> returns, it has resolved the canonical address: the address with the
  variant's email for a variant without key, and what \<open>canonical_email\<close> reads for a
  variant with a key; the emails are equal in lower case.
\<close>

lemma is_valid_Inr:
  assumes "is_valid d self True = Inr (ok, self1)"
  shows "\<exists>c. lower (ea_email c) = lower (var_email self) \<and>
             (if no_id (var_canonical_email_id self)
              then get_by_email (emails d) (var_email self) = Inr c \<and>
                   self1 = set_canonical_email c self
              else fst (canonical_email d self) = Inr c \<and>
                   self1 = self\<lparr>var_canonical_email := Some c\<rparr>)"
proof (cases "no_id (var_canonical_email_id self)")
  case True
  with assms obtain c where c: "get_by_email (emails d) (var_email self) = Inr c"
    by (cases "get_by_email (emails d) (var_email self)")
       (auto simp: is_valid_def fail_def split: if_splits)
  from is_valid_found [OF True c] assms have "self1 = set_canonical_email c self" by simp
  moreover from c have "ea_email c = var_email self" by (simp add: get_by_email_D)
  ultimately show ?thesis using True c by auto
next
  case False
  obtain r self2 where r: "canonical_email d self = (r, self2)"
    by (cases "canonical_email d self")
  from assms r obtain c where c: "r = Inr c"
    by (cases r) (simp_all add: is_valid_keyed [OF False])
  from r c have f: "fst (canonical_email d self) = Inr c" by simp
  have l: "lower (ea_email c) = lower (var_email self)"
  proof (rule ccontr)
    assume "lower (ea_email c) \<noteq> lower (var_email self)"
    from is_valid_mismatch [OF False f this] assms show False by simp
  qed
  from is_valid_match [OF False f l] assms have "self1 = self\<lparr>var_canonical_email := Some c\<rparr>"
    by simp
  with False f l show ?thesis by auto
qed

lemma variant_save_invalid:
  "is_valid d self True = Inl e \<Longrightarrow> variant_save (Suc n) self d = (Inl e, d)"
  by simp

text \<open>
  A valid variant whose key is that of the address it holds: the variant is written, and
  its canonical address is saved, which has a variant then.
\<close>

lemma variant_save_valid:
  assumes v: "is_valid d self True = Inr (ok, self1)"
    and h: "var_canonical_email self1 = Some c"
    and k: "var_canonical_email_id self1 = Some (ea_id c)"
  shows "variant_save (Suc (Suc n)) self d =
           (Inr (), d\<lparr>variants := write_variant (variants d) self1,
                      emails := write_email (emails d) c\<rparr>)"
proof -
  let ?d1 = "d\<lparr>variants := write_variant (variants d) self1\<rparr>"
  have s: "variant_save (Suc (Suc n)) self d = cached_email_save (Suc n) c ?d1"
    using v by (simp add: Let_def canonical_email_held [OF h])
  have "list_ex (\<lambda>v. var_canonical_email_id v = Some (ea_id c)) (write_variant (variants d) self1)"
    using variant_exists_after_write [of self1 "variants d"] k by simp
  then have ex: "emailaddressvariant_set_exists (?d1\<lparr>emails := write_email (emails ?d1) c\<rparr>) c"
    by (simp add: emailaddressvariant_set_exists_def)
  have "cached_email_save (Suc n) c ?d1 = (Inr (), ?d1\<lparr>emails := write_email (emails ?d1) c\<rparr>)"
    by (rule cached_email_save_exists) (use ex in simp)
  with s show ?thesis by simp
qed

lemma write_variant_held:
  "write_variant tbl (self\<lparr>var_canonical_email := h\<rparr>) = write_variant tbl self"
  by (simp add: write_variant_def Let_def)

lemma variant_save_Inr:
  assumes "variant_save (Suc n) self d = (Inr u, d')"
  shows "\<exists>c. lower (ea_email c) = lower (var_email self) \<and>
             (if no_id (var_canonical_email_id self)
              then get_by_email (emails d) (var_email self) = Inr c
              else fst (canonical_email d self) = Inr c)"
proof -
  from assms obtain ok self1 where v: "is_valid d self True = Inr (ok, self1)"
    by (cases "is_valid d self True") auto
  from is_valid_Inr [OF v] show ?thesis by (auto split: if_splits)
qed

lemma variant_save_keyed:
  assumes n: "\<not> no_id (var_canonical_email_id self)"
    and f: "fst (canonical_email d self) = Inr c"
    and k: "var_canonical_email_id self = Some (ea_id c)"
    and l: "lower (ea_email c) = lower (var_email self)"
  shows "variant_save (Suc (Suc m)) self d =
           (Inr (), d\<lparr>variants := write_variant (variants d) self,
                      emails := write_email (emails d) c\<rparr>)"
proof -
  let ?s = "self\<lparr>var_canonical_email := Some c\<rparr>"
  have "variant_save (Suc (Suc m)) self d =
          (Inr (), d\<lparr>variants := write_variant (variants d) ?s,
                     emails := write_email (emails d) c\<rparr>)"
    by (rule variant_save_valid [OF is_valid_match [OF n f l]]) (simp_all add: k)
  then show ?thesis by (simp only: write_variant_held)
qed

lemma variant_save_found:
  assumes n: "no_id (var_canonical_email_id self)"
    and g: "get_by_email (emails d) (var_email self) = Inr c"
  shows "variant_save (Suc (Suc m)) self d =
           (Inr (), d\<lparr>variants := write_variant (variants d) (set_canonical_email c self),
                      emails := write_email (emails d) c\<rparr>)"
  by (rule variant_save_valid [OF is_valid_found [OF n g]])
     (simp_all add: set_canonical_email_def)

text \<open>
  Claim C8, as amended. The canonical address of a variant is the address with the
  variant's email when the variant has no key, and what \<open>canonical_email\<close> reads when it
  has one: the object the instance holds, else the stored address with the key. Saving
  a variant succeeds only if its canonical address is resolved and the two emails are
  equal in lower case. When the variant has no key and no address with its email is
  stored, and when the lower-case emails differ, the save raises ValidationError and
  leaves the state as it was: the variant is not stored. When the variant has a key
  that no stored address has, and holds no address, the save raises DoesNotExist, and
  the state is as it was. When the canonical address is resolved, has the key of the
  variant and the emails are equal in lower case, the save stores the variant and saves
  the canonical address.
\<close>

theorem variant_save_alternate_case_only:
  "(variant_save recursion_limit self d = (Inr u, d') \<longrightarrow>
      (\<exists>c. lower (ea_email c) = lower (var_email self) \<and>
           (if no_id (var_canonical_email_id self)
            then get_by_email (emails d) (var_email self) = Inr c
            else fst (canonical_email d self) = Inr c))) \<and>
   (no_id (var_canonical_email_id self) \<and>
    get_by_email (emails d) (var_email self) = Inl DoesNotExist \<longrightarrow>
      variant_save recursion_limit self d =
        (Inl (ValidationError ''Canonical Email Address not found''), d)) \<and>
   (\<not> no_id (var_canonical_email_id self) \<and> fst (canonical_email d self) = Inr c \<and>
    lower (ea_email c) \<noteq> lower (var_email self) \<longrightarrow>
      variant_save recursion_limit self d =
        (Inl (ValidationError ''New EmailAddressVariant does not match stored email address.''), d)) \<and>
   (\<not> no_id (var_canonical_email_id self) \<and> var_canonical_email self = None \<and>
    var_canonical_email_id self = Some pk \<and> (\<forall>r \<in> set (emails d). ea_id r \<noteq> pk) \<longrightarrow>
      variant_save recursion_limit self d = (Inl DoesNotExist, d)) \<and>
   (\<not> no_id (var_canonical_email_id self) \<and> fst (canonical_email d self) = Inr c \<and>
    var_canonical_email_id self = Some (ea_id c) \<and>
    lower (ea_email c) = lower (var_email self) \<longrightarrow>
      variant_save recursion_limit self d =
        (Inr (), d\<lparr>variants := write_variant (variants d) self,
                   emails := write_email (emails d) c\<rparr>)) \<and>
   (no_id (var_canonical_email_id self) \<and>
    get_by_email (emails d) (var_email self) = Inr c \<longrightarrow>
      variant_save recursion_limit self d =
        (Inr (), d\<lparr>variants := write_variant (variants d) (set_canonical_email c self),
                   emails := write_email (emails d) c\<rparr>))"
  unfolding recursion_limit_Suc
proof (intro conjI impI)
  assume "variant_save (Suc (Suc (Suc (Suc 996)))) self d = (Inr u, d')"
  then show "\<exists>c. lower (ea_email c) = lower (var_email self) \<and>
           (if no_id (var_canonical_email_id self)
            then get_by_email (emails d) (var_email self) = Inr c
            else fst (canonical_email d self) = Inr c)"
    by (rule variant_save_Inr)
next
  assume "no_id (var_canonical_email_id self) \<and>
    get_by_email (emails d) (var_email self) = Inl DoesNotExist"
  then have "is_valid d self True = Inl (ValidationError ''Canonical Email Address not found'')"
    by (intro is_valid_not_found) simp_all
  then show "variant_save (Suc (Suc (Suc (Suc 996)))) self d =
        (Inl (ValidationError ''Canonical Email Address not found''), d)"
    by (rule variant_save_invalid)
next
  assume a: "\<not> no_id (var_canonical_email_id self) \<and> fst (canonical_email d self) = Inr c \<and>
    lower (ea_email c) \<noteq> lower (var_email self)"
  have "is_valid d self True =
          Inl (ValidationError ''New EmailAddressVariant does not match stored email address.'')"
    by (rule is_valid_mismatch [of self d c]) (use a in blast)+
  then show "variant_save (Suc (Suc (Suc (Suc 996)))) self d =
        (Inl (ValidationError ''New EmailAddressVariant does not match stored email address.''), d)"
    by (rule variant_save_invalid)
next
  assume a: "\<not> no_id (var_canonical_email_id self) \<and> var_canonical_email self = None \<and>
    var_canonical_email_id self = Some pk \<and> (\<forall>r \<in> set (emails d). ea_id r \<noteq> pk)"
  then have c: "canonical_email d self = (Inl DoesNotExist, self)"
    by (intro canonical_email_dangling) blast+
  from a have n: "\<not> no_id (var_canonical_email_id self)" by (rule conjunct1)
  have "is_valid d self True = Inl DoesNotExist"
    by (simp add: is_valid_keyed [OF n] c)
  then show "variant_save (Suc (Suc (Suc (Suc 996)))) self d = (Inl DoesNotExist, d)"
    by (rule variant_save_invalid)
next
  assume a: "\<not> no_id (var_canonical_email_id self) \<and> fst (canonical_email d self) = Inr c \<and>
    var_canonical_email_id self = Some (ea_id c) \<and>
    lower (ea_email c) = lower (var_email self)"
  show "variant_save (Suc (Suc (Suc (Suc 996)))) self d =
        (Inr (), d\<lparr>variants := write_variant (variants d) self,
                   emails := write_email (emails d) c\<rparr>)"
    by (rule variant_save_keyed) (use a in blast)+
next
  assume a: "no_id (var_canonical_email_id self) \<and>
    get_by_email (emails d) (var_email self) = Inr c"
  show "variant_save (Suc (Suc (Suc (Suc 996)))) self d =
        (Inr (), d\<lparr>variants := write_variant (variants d) (set_canonical_email c self),
                   emails := write_email (emails d) c\<rparr>)"
    by (rule variant_save_found) (use a in blast)+
qed

lemma db_ex_emails:
  "emails db_ex =
        [\<lparr>ea_id = 1, ea_email = ''ann@a.nl'', ea_user_id = 1, ea_primary = True, ea_verified = True\<rparr>,
         \<lparr>ea_id = 2, ea_email = ''bob@b.nl'', ea_user_id = 2, ea_primary = True, ea_verified = False\<rparr>,
         \<lparr>ea_id = 3, ea_email = ''bob@work.nl'', ea_user_id = 2, ea_primary = False, ea_verified = True\<rparr>]"
  by (simp add: db_ex_def)

lemma canonical_email_variant_ex:
  "var_canonical_email_id v = Some 1 \<Longrightarrow> var_canonical_email v = None \<Longrightarrow>
   canonical_email db_ex v = (Inr ann_address, v\<lparr>var_canonical_email := Some ann_address\<rparr>)"
  by (simp add: canonical_email_def get_by_pk_def get_one_def db_ex_emails ann_address_def)

lemma lower_capitals: "lower ''ann@a.nl'' = lower ''Ann@A.nl''"
  by code_simp

text \<open>
  Witness for C8: a variant of another mailbox, a variant without canonical address and
  a variant with a key that no address has are refused and the state is unchanged; a
  variant in capitals with the key of its address is stored, and so is a variant
  without key whose email is that of a stored address.
\<close>

theorem variant_save_alternate_case_only_witness:
  "variant_save recursion_limit variant_ex db_ex =
     (Inl (ValidationError ''New EmailAddressVariant does not match stored email address.''), db_ex) \<and>
   variant_save recursion_limit (variant_ex\<lparr>var_canonical_email_id := None\<rparr>) db_ex =
     (Inl (ValidationError ''Canonical Email Address not found''), db_ex) \<and>
   variant_save recursion_limit (variant_ex\<lparr>var_canonical_email_id := Some 9\<rparr>) db_ex =
     (Inl DoesNotExist, db_ex) \<and>
   variant_save recursion_limit (variant_ex\<lparr>var_email := ''Ann@A.nl''\<rparr>) db_ex =
     (Inr (), db_ex\<lparr>variants :=
         [\<lparr>var_id = Some 1, var_email = ''Ann@A.nl'', var_canonical_email_id = Some 1,
           var_canonical_email = None, var_error = None\<rparr>]\<rparr>) \<and>
   variant_save recursion_limit
     (variant_ex\<lparr>var_email := ''ann@a.nl'', var_canonical_email_id := None\<rparr>) db_ex =
     (Inr (), db_ex\<lparr>variants :=
         [\<lparr>var_id = Some 1, var_email = ''ann@a.nl'', var_canonical_email_id = Some 1,
           var_canonical_email = None, var_error = None\<rparr>]\<rparr>) \<and>
   (\<exists>c. lower (ea_email c) = lower ''Ann@A.nl'' \<and>
        fst (canonical_email db_ex (variant_ex\<lparr>var_email := ''Ann@A.nl''\<rparr>)) = Inr c)"
proof -
  let ?n = "variant_ex\<lparr>var_canonical_email_id := None\<rparr>"
  let ?k = "variant_ex\<lparr>var_canonical_email_id := Some 9\<rparr>"
  let ?v = "variant_ex\<lparr>var_email := ''Ann@A.nl''\<rparr>"
  let ?w = "variant_ex\<lparr>var_email := ''ann@a.nl'', var_canonical_email_id := None\<rparr>"
  note t = variant_save_alternate_case_only [where d = db_ex and c = ann_address]
  note t2 = t [THEN conjunct2, THEN conjunct1, rule_format]
  note t3 = t [THEN conjunct2, THEN conjunct2, THEN conjunct1, rule_format]
  note t4 = t [THEN conjunct2, THEN conjunct2, THEN conjunct2, THEN conjunct1, rule_format]
  note t5 = t [THEN conjunct2, THEN conjunct2, THEN conjunct2, THEN conjunct2, THEN conjunct1,
      rule_format]
  note t6 = t [THEN conjunct2, THEN conjunct2, THEN conjunct2, THEN conjunct2, THEN conjunct2,
      rule_format]
  have w0: "write_email (emails db_ex) ann_address = emails db_ex"
    by (simp add: write_email_def db_ex_emails ann_address_def)
  have h1: "\<not> no_id (var_canonical_email_id variant_ex) \<and>
            fst (canonical_email db_ex variant_ex) = Inr ann_address \<and>
            lower (ea_email ann_address) \<noteq> lower (var_email variant_ex)"
    by (simp add: canonical_email_variant_ex no_id_def variant_ex_def ann_address_def lower_def
        lower_char_def is_upper_def)
  have first: "variant_save recursion_limit variant_ex db_ex =
     (Inl (ValidationError ''New EmailAddressVariant does not match stored email address.''), db_ex)"
    by (rule t3 [OF h1])
  have h2: "no_id (var_canonical_email_id ?n) \<and>
            get_by_email (emails db_ex) (var_email ?n) = Inl DoesNotExist"
    by (simp add: no_id_def get_by_email_def get_one_def db_ex_emails variant_ex_def)
  have second: "variant_save recursion_limit ?n db_ex =
     (Inl (ValidationError ''Canonical Email Address not found''), db_ex)"
    by (rule t2 [OF h2])
  have h3: "\<not> no_id (var_canonical_email_id ?k) \<and> var_canonical_email ?k = None \<and>
            var_canonical_email_id ?k = Some 9 \<and> (\<forall>r \<in> set (emails db_ex). ea_id r \<noteq> 9)"
    by (simp add: no_id_def db_ex_emails variant_ex_def)
  have third: "variant_save recursion_limit ?k db_ex = (Inl DoesNotExist, db_ex)"
    by (rule t4 [OF h3])
  have h4: "\<not> no_id (var_canonical_email_id ?v) \<and>
            fst (canonical_email db_ex ?v) = Inr ann_address \<and>
            var_canonical_email_id ?v = Some (ea_id ann_address) \<and>
            lower (ea_email ann_address) = lower (var_email ?v)"
    using lower_capitals
    by (simp add: canonical_email_variant_ex no_id_def variant_ex_def ann_address_def)
  have "variant_save recursion_limit ?v db_ex =
          (Inr (), db_ex\<lparr>variants := write_variant (variants db_ex) ?v,
                         emails := write_email (emails db_ex) ann_address\<rparr>)"
    by (rule t5 [OF h4])
  moreover have "write_variant (variants db_ex) ?v =
                   [\<lparr>var_id = Some 1, var_email = ''Ann@A.nl'', var_canonical_email_id = Some 1,
                     var_canonical_email = None, var_error = None\<rparr>]"
    by (simp add: write_variant_def next_variant_pk_def variant_ex_def db_ex_def)
  ultimately have fourth: "variant_save recursion_limit ?v db_ex =
     (Inr (), db_ex\<lparr>variants :=
         [\<lparr>var_id = Some 1, var_email = ''Ann@A.nl'', var_canonical_email_id = Some 1,
           var_canonical_email = None, var_error = None\<rparr>]\<rparr>)"
    by (simp add: w0)
  have h5: "no_id (var_canonical_email_id ?w) \<and>
            get_by_email (emails db_ex) (var_email ?w) = Inr ann_address"
    by (simp add: no_id_def get_by_email_def get_one_def db_ex_emails variant_ex_def
        ann_address_def)
  have "variant_save recursion_limit ?w db_ex =
          (Inr (), db_ex\<lparr>variants := write_variant (variants db_ex)
                                       (set_canonical_email ann_address ?w),
                         emails := write_email (emails db_ex) ann_address\<rparr>)"
    by (rule t6 [OF h5])
  moreover have "write_variant (variants db_ex) (set_canonical_email ann_address ?w) =
                   [\<lparr>var_id = Some 1, var_email = ''ann@a.nl'', var_canonical_email_id = Some 1,
                     var_canonical_email = None, var_error = None\<rparr>]"
    by (simp add: write_variant_def next_variant_pk_def variant_ex_def db_ex_def
        set_canonical_email_def ann_address_def)
  ultimately have fifth: "variant_save recursion_limit ?w db_ex =
     (Inr (), db_ex\<lparr>variants :=
         [\<lparr>var_id = Some 1, var_email = ''ann@a.nl'', var_canonical_email_id = Some 1,
           var_canonical_email = None, var_error = None\<rparr>]\<rparr>)"
    by (simp add: w0)
  have nv: "\<not> no_id (var_canonical_email_id ?v)" by (simp add: no_id_def variant_ex_def)
  from variant_save_alternate_case_only
         [where self = ?v and d = db_ex and u = "()", THEN conjunct1, rule_format, OF fourth]
  have "\<exists>c. lower (ea_email c) = lower (var_email ?v) \<and>
            (if no_id (var_canonical_email_id ?v)
             then get_by_email (emails db_ex) (var_email ?v) = Inr c
             else fst (canonical_email db_ex ?v) = Inr c)" .
  with nv have sixth: "\<exists>c. lower (ea_email c) = lower ''Ann@A.nl'' \<and>
        fst (canonical_email db_ex ?v) = Inr c"
    by (simp add: variant_ex_def)
  from first second third fourth fifth sixth show ?thesis by (intro conjI)
qed

text \<open>
  Counterexample to C8 as stated: the variant has the key 9, which no stored address
  has, so that no canonical address can be resolved; the save raises DoesNotExist and
  no ValidationError.
\<close>

theorem variant_save_alternate_case_only_counterexample:
  "map ea_id (emails db_ex) = [1, 2, 3] \<and>
   fst (canonical_email db_ex (variant_ex\<lparr>var_canonical_email_id := Some 9\<rparr>)) = Inl DoesNotExist \<and>
   variant_save recursion_limit (variant_ex\<lparr>var_canonical_email_id := Some 9\<rparr>) db_ex =
     (Inl DoesNotExist, db_ex)"
proof -
  have c: "canonical_email db_ex (variant_ex\<lparr>var_canonical_email_id := Some 9\<rparr>) =
             (Inl DoesNotExist, variant_ex\<lparr>var_canonical_email_id := Some 9\<rparr>)"
    by (simp add: canonical_email_def get_by_pk_def get_one_def db_ex_emails variant_ex_def)
  then have "is_valid db_ex (variant_ex\<lparr>var_canonical_email_id := Some 9\<rparr>) True = Inl DoesNotExist"
    by (simp add: is_valid_def no_id_def variant_ex_def)
  then have "variant_save (Suc (Suc (Suc (Suc 996)))) (variant_ex\<lparr>var_canonical_email_id := Some 9\<rparr>)
               db_ex = (Inl DoesNotExist, db_ex)"
    by (rule variant_save_invalid)
  then have "variant_save recursion_limit (variant_ex\<lparr>var_canonical_email_id := Some 9\<rparr>) db_ex =
               (Inl DoesNotExist, db_ex)"
    by (simp only: recursion_limit_Suc)
  with c show ?thesis by (simp add: db_ex_emails)
qed

text \<open>After a read of \<open>verified\<close> that returned, the instance holds the address read.\<close>

lemma variant_verified_Inr:
  assumes "variant_verified d self = (Inr b, self1)"
  shows "\<exists>c. var_canonical_email self1 = Some c \<and> ea_verified c = b"
proof -
  obtain r self2 where r: "canonical_email d self = (r, self2)"
    by (cases "canonical_email d self")
  with assms obtain c where c: "r = Inr c" "ea_verified c = b" "self2 = self1"
    by (cases r) (simp_all add: variant_verified_def)
  from canonical_email_Inr [OF r [unfolded c(1)]] c(3)
  have "var_canonical_email self1 = Some c" by simp
  with c(2) show ?thesis by blast
qed

lemma variant_verified_held:
  "var_canonical_email self = Some c \<Longrightarrow> variant_verified d self = (Inr (ea_verified c), self)"
  by (simp add: variant_verified_def canonical_email_held)

text \<open>
  Claim C7, as amended. The verified status of a variant is the verified status of the
  canonical address that the instance holds, whatever the table says. An instance that
  holds none reads the stored address with its key, reports the status of that address
  and holds the address from then on. So a read that returned is repeated by every
  later read of the instance, in every state of the table.
\<close>

theorem variant_verified_canonical:
  "(var_canonical_email self = Some c \<longrightarrow>
      variant_verified d self = (Inr (ea_verified c), self)) \<and>
   (var_canonical_email self = None \<and> var_canonical_email_id self = Some pk \<and>
    get_by_pk (emails d) pk = Inr c \<longrightarrow>
      variant_verified d self = (Inr (ea_verified c), self\<lparr>var_canonical_email := Some c\<rparr>)) \<and>
   (variant_verified d self = (Inr b, self1) \<longrightarrow> variant_verified d' self1 = (Inr b, self1))"
proof (intro conjI impI)
  assume "var_canonical_email self = Some c"
  then show "variant_verified d self = (Inr (ea_verified c), self)"
    by (rule variant_verified_held)
next
  assume "var_canonical_email self = None \<and> var_canonical_email_id self = Some pk \<and>
    get_by_pk (emails d) pk = Inr c"
  then show "variant_verified d self =
               (Inr (ea_verified c), self\<lparr>var_canonical_email := Some c\<rparr>)"
    by (simp add: variant_verified_def canonical_email_def)
next
  assume "variant_verified d self = (Inr b, self1)"
  from variant_verified_Inr [OF this] obtain c' where
    "var_canonical_email self1 = Some c'" "ea_verified c' = b" by blast
  with variant_verified_held [of self1 c' d'] show "variant_verified d' self1 = (Inr b, self1)"
    by simp
qed

text \<open>
  Witness for C7: the variant of the example reads the status of the stored address
  and holds the address then; when the stored address is no longer verified, the
  instance still reports what it holds.
\<close>

theorem variant_verified_canonical_witness:
  "var_canonical_email variant_ex = None \<and> var_canonical_email_id variant_ex = Some 1 \<and>
   get_by_pk (emails db_ex) 1 = Inr ann_address \<and>
   variant_verified db_ex variant_ex =
     (Inr True, variant_ex\<lparr>var_canonical_email := Some ann_address\<rparr>) \<and>
   variant_verified db_ex_unverified (variant_ex\<lparr>var_canonical_email := Some ann_address\<rparr>) =
     (Inr True, variant_ex\<lparr>var_canonical_email := Some ann_address\<rparr>) \<and>
   variant_verified db_ex
     (variant_ex\<lparr>var_canonical_email := Some (ann_address\<lparr>ea_verified := False\<rparr>)\<rparr>) =
     (Inr False, variant_ex\<lparr>var_canonical_email := Some (ann_address\<lparr>ea_verified := False\<rparr>)\<rparr>)"
proof -
  let ?s = "variant_ex\<lparr>var_canonical_email := Some ann_address\<rparr>"
  let ?u = "variant_ex\<lparr>var_canonical_email := Some (ann_address\<lparr>ea_verified := False\<rparr>)\<rparr>"
  note t = variant_verified_canonical [where self = variant_ex and d = db_ex and pk = 1
      and c = ann_address]
  have h: "var_canonical_email variant_ex = None \<and> var_canonical_email_id variant_ex = Some 1 \<and>
           get_by_pk (emails db_ex) 1 = Inr ann_address"
    by (simp add: variant_ex_def get_by_pk_def get_one_def db_ex_emails ann_address_def)
  from t [THEN conjunct2, THEN conjunct1, rule_format, OF h]
  have a: "variant_verified db_ex variant_ex = (Inr True, ?s)"
    by (simp add: ann_address_def)
  from t [THEN conjunct2, THEN conjunct2, rule_format, OF a]
  have b: "variant_verified db_ex_unverified ?s = (Inr True, ?s)" .
  have "var_canonical_email ?u = Some (ann_address\<lparr>ea_verified := False\<rparr>)" by simp
  from variant_verified_canonical
         [where self = ?u and d = db_ex and c = "ann_address\<lparr>ea_verified := False\<rparr>",
          THEN conjunct1, rule_format, OF this]
  have c: "variant_verified db_ex ?u = (Inr False, ?u)" by simp
  from h a b c show ?thesis by simp
qed

text \<open>
  Counterexample to C7 as stated: the instance has read its status once; the stored
  canonical address is no longer verified when the status is read again, and the
  instance reports that it is.
\<close>

theorem variant_verified_canonical_counterexample:
  "variant_verified db_ex variant_ex =
     (Inr True, variant_ex\<lparr>var_canonical_email := Some ann_address\<rparr>) \<and>
   get_by_pk (emails db_ex_unverified) 1 = Inr (ann_address\<lparr>ea_verified := False\<rparr>) \<and>
   variant_verified db_ex_unverified (variant_ex\<lparr>var_canonical_email := Some ann_address\<rparr>) =
     (Inr True, variant_ex\<lparr>var_canonical_email := Some ann_address\<rparr>)"
  by (simp add: variant_verified_def canonical_email_def get_by_pk_def get_one_def
      db_ex_emails db_ex_unverified_def write_email_def variant_ex_def ann_address_def)

lemma find_filter_conv: "find P xs = (case filter P xs of [] \<Rightarrow> None | x # _ \<Rightarrow> Some x)"
  by (induction xs) auto

text \<open>
  Claim C10. \<open>primary_email\<close> always returns: the email of the first of the user's
  addresses that is marked primary, and the email of the user record when none is.
\<close>

theorem primary_email_total:
  "primary_email d self =
     Inr (case find ea_primary (cached_emails d (bu_id self)) of
            Some e \<Rightarrow> ea_email e
          | None \<Rightarrow> bu_email self)"
  by (cases "filter ea_primary (cached_emails d (bu_id self))")
     (simp_all add: primary_email_def find_filter_conv first_item_def)

section \<open>Properties of the email setter and of the primary flag\<close>

lemma write_email_set:
  "set (write_email tbl x) = insert x {r \<in> set tbl. ea_id r \<noteq> ea_id x}"
proof (cases "ea_id x \<in> set (map ea_id tbl)")
  case True
  then obtain a where a: "a \<in> set tbl" "ea_id a = ea_id x" by auto
  have "set (map (\<lambda>r. if ea_id r = ea_id x then x else r) tbl) =
          insert x {r \<in> set tbl. ea_id r \<noteq> ea_id x}"
  proof (intro set_eqI iffI)
    fix y assume "y \<in> set (map (\<lambda>r. if ea_id r = ea_id x then x else r) tbl)"
    then obtain r where r: "r \<in> set tbl" "y = (if ea_id r = ea_id x then x else r)" by auto
    then show "y \<in> insert x {r \<in> set tbl. ea_id r \<noteq> ea_id x}"
      by (cases "ea_id r = ea_id x") simp_all
  next
    fix y assume y: "y \<in> insert x {r \<in> set tbl. ea_id r \<noteq> ea_id x}"
    show "y \<in> set (map (\<lambda>r. if ea_id r = ea_id x then x else r) tbl)"
    proof (cases "y = x")
      case True
      have "(if ea_id a = ea_id x then x else a) \<in>
              (\<lambda>r. if ea_id r = ea_id x then x else r) ` set tbl"
        using a(1) by (rule imageI)
      with True a(2) show ?thesis by simp
    next
      case False
      with y have yt: "y \<in> set tbl" and n: "ea_id y \<noteq> ea_id x" by simp_all
      have "(if ea_id y = ea_id x then x else y) \<in>
              (\<lambda>r. if ea_id r = ea_id x then x else r) ` set tbl"
        using yt by (rule imageI)
      with n show ?thesis by simp
    qed
  qed
  with True show ?thesis by (simp add: write_email_def)
next
  case False
  then have "\<And>r. r \<in> set tbl \<Longrightarrow> ea_id r \<noteq> ea_id x" by (metis imageI set_map)
  then have "{r \<in> set tbl. ea_id r \<noteq> ea_id x} = set tbl" by blast
  with False show ?thesis by (simp add: write_email_fresh)
qed

lemma wf_emails_write:
  assumes "wf_emails d" and "ea_id x \<noteq> 0" and "emails d' = write_email (emails d) x"
  shows "wf_emails d'"
proof -
  from assms(1) have d: "distinct (map ea_id (emails d))" and z: "0 \<notin> set (map ea_id (emails d))"
    by (simp_all add: wf_emails_def)
  have "distinct (map ea_id (emails d'))"
    unfolding assms(3) using d by (rule write_email_distinct)
  moreover have "0 \<notin> set (map ea_id (emails d'))"
    unfolding assms(3) write_email_ids_set using z assms(2) by simp
  ultimately show ?thesis by (simp add: wf_emails_def)
qed

lemma wf_emails_id: "wf_emails d \<Longrightarrow> r \<in> set (emails d) \<Longrightarrow> ea_id r \<noteq> 0"
  unfolding wf_emails_def by (metis imageI set_map)

lemma wf_emails_inj:
  "wf_emails d \<Longrightarrow> r \<in> set (emails d) \<Longrightarrow> r' \<in> set (emails d) \<Longrightarrow> ea_id r = ea_id r' \<Longrightarrow> r = r'"
  unfolding wf_emails_def by (metis distinct_map inj_onD)

lemma wf_emails_distinct: "wf_emails d \<Longrightarrow> distinct (emails d)"
  unfolding wf_emails_def by (metis distinct_map)

lemma next_email_pk_fresh:
  "next_email_pk tbl \<notin> set (map ea_id tbl)" "next_email_pk tbl \<noteq> 0"
proof -
  show "next_email_pk tbl \<notin> set (map ea_id tbl)"
  proof
    assume "next_email_pk tbl \<in> set (map ea_id tbl)"
    then have "next_email_pk tbl \<le> fold max (map ea_id tbl) 0" by (rule fold_max_mem)
    then show False by (simp add: next_email_pk_def)
  qed
  show "next_email_pk tbl \<noteq> 0" by (simp add: next_email_pk_def)
qed

lemma save_limit:
  assumes "wf_emails d" and "ea_id self \<noteq> 0"
  obtains d' where "cached_email_save recursion_limit self d = (Inr (), d')"
    and "emails d' = write_email (emails d) self" and "users d' = users d"
    and "outbox d' = outbox d" and "wf_emails d'"
proof -
  from assms(1) have "distinct (map ea_id (emails d))" by (simp add: wf_emails_def)
  from cached_email_save_limit [OF this assms(2)] obtain d' where
    s: "cached_email_save recursion_limit self d = (Inr (), d')" and
    e: "emails d' = write_email (emails d) self" and u: "users d' = users d" and
    o: "outbox d' = outbox d" by blast
  from wf_emails_write [OF assms e] have "wf_emails d'" .
  with s e u o show ?thesis by (rule that)
qed

lemma get_by_email_cases:
  obtains (none) "get_by_email tbl email = Inl DoesNotExist"
  | (several) "get_by_email tbl email = Inl MultipleObjectsReturned"
  | (one) a where "get_by_email tbl email = Inr a"
  using get_one_cases [of "filter (\<lambda>r. ea_email r = email) tbl"]
  unfolding get_by_email_def by blast

lemma get_by_email_none: "get_by_email tbl email = Inl DoesNotExist \<Longrightarrow> r \<in> set tbl \<Longrightarrow> ea_email r \<noteq> email"
  unfolding get_by_email_def get_one_DoesNotExist by (auto simp: filter_empty_conv)

lemma get_by_email_unique:
  assumes "get_by_email tbl email = Inr a" and "r \<in> set tbl" and "ea_email r = email"
  shows "r = a"
proof -
  from assms(1) have "filter (\<lambda>r. ea_email r = email) tbl = [a]"
    by (simp add: get_by_email_def get_one_Inr)
  moreover from assms(2,3) have "r \<in> set (filter (\<lambda>r. ea_email r = email) tbl)" by simp
  ultimately show ?thesis by simp
qed

lemma get_or_create_existing:
  "get_by_email (emails d) email = Inr a \<Longrightarrow> get_or_create email user primary d = (Inr (a, False), d)"
  by (simp add: get_or_create_def)

lemma get_or_create_several:
  "get_by_email (emails d) email = Inl MultipleObjectsReturned \<Longrightarrow>
   get_or_create email user primary d = (Inl MultipleObjectsReturned, d)"
  by (simp add: get_or_create_def)

lemma get_or_create_new:
  assumes wf: "wf_emails d" and n: "get_by_email (emails d) email = Inl DoesNotExist"
  obtains d' where
    "get_or_create email user primary d =
       (Inr (\<lparr>ea_id = next_email_pk (emails d), ea_email = email, ea_user_id = user,
              ea_primary = primary, ea_verified = False\<rparr>, True), d')"
    and "emails d' = emails d @ [\<lparr>ea_id = next_email_pk (emails d), ea_email = email,
              ea_user_id = user, ea_primary = primary, ea_verified = False\<rparr>]"
    and "users d' = users d" and "outbox d' = outbox d" and "wf_emails d'"
proof -
  let ?obj = "\<lparr>ea_id = next_email_pk (emails d), ea_email = email, ea_user_id = user,
              ea_primary = primary, ea_verified = False\<rparr>"
  have nz: "ea_id ?obj \<noteq> 0" using next_email_pk_fresh(2) [of "emails d"] by simp
  from save_limit [OF wf nz] obtain d' where
    s: "cached_email_save recursion_limit ?obj d = (Inr (), d')" and
    e: "emails d' = write_email (emails d) ?obj" and u: "users d' = users d" and
    o: "outbox d' = outbox d" and w: "wf_emails d'" by blast
  have "ea_id ?obj \<notin> set (map ea_id (emails d))"
    using next_email_pk_fresh(1) [of "emails d"] by simp
  from write_email_fresh [OF this] e have e': "emails d' = emails d @ [?obj]" by simp
  have "get_or_create email user primary d = (Inr (?obj, True), d')"
    using n s by (simp add: get_or_create_def Let_def)
  then show ?thesis using e' u o w by (rule that)
qed

lemma update_item_created:
  assumes wf: "wf_emails d" and n: "get_by_email (emails d) (ed_email x) = Inl DoesNotExist"
  obtains d' where "update_item self_id x d = (Inr (), d')"
    and "emails d' = emails d @ [\<lparr>ea_id = next_email_pk (emails d), ea_email = ed_email x,
              ea_user_id = self_id, ea_primary = get_primary_flag x, ea_verified = False\<rparr>]"
    and "users d' = users d" and "outbox d' = outbox d @ [ed_email x]" and "wf_emails d'"
proof -
  let ?obj = "\<lparr>ea_id = next_email_pk (emails d), ea_email = ed_email x,
              ea_user_id = self_id, ea_primary = get_primary_flag x, ea_verified = False\<rparr>"
  from get_or_create_new [OF wf n, of self_id "get_primary_flag x"] obtain d1 where
    g: "get_or_create (ed_email x) self_id (get_primary_flag x) d = (Inr (?obj, True), d1)" and
    e: "emails d1 = emails d @ [?obj]" and u: "users d1 = users d" and
    o: "outbox d1 = outbox d" and w: "wf_emails d1" by blast
  let ?d' = "d1\<lparr>outbox := outbox d1 @ [ed_email x]\<rparr>"
  have "update_item self_id x d = (Inr (), ?d')"
    using g by (simp add: update_item_def Let_def send_confirmation_def)
  moreover have "emails ?d' = emails d @ [?obj]" using e by simp
  moreover have "users ?d' = users d" using u by simp
  moreover have "outbox ?d' = outbox d @ [ed_email x]" using o by simp
  moreover have "wf_emails ?d'" using w by (simp add: wf_emails_def)
  ultimately show ?thesis by (rule that)
qed

lemma update_item_own:
  assumes wf: "wf_emails d" and a: "get_by_email (emails d) (ed_email x) = Inr a"
    and own: "ea_user_id a = self_id"
  obtains d' where "update_item self_id x d = (Inr (), d')"
    and "emails d' = write_email (emails d) (a\<lparr>ea_primary := get_primary_flag x\<rparr>)"
    and "users d' = users d" and "outbox d' = outbox d" and "wf_emails d'"
proof -
  from get_by_email_D [OF a] have m: "a \<in> set (emails d)" by simp
  have nz: "ea_id (a\<lparr>ea_primary := get_primary_flag x\<rparr>) \<noteq> 0"
    using wf_emails_id [OF wf m] by simp
  from save_limit [OF wf nz] obtain d' where
    s: "cached_email_save recursion_limit (a\<lparr>ea_primary := get_primary_flag x\<rparr>) d = (Inr (), d')" and
    e: "emails d' = write_email (emails d) (a\<lparr>ea_primary := get_primary_flag x\<rparr>)" and
    u: "users d' = users d" and o: "outbox d' = outbox d" and w: "wf_emails d'" by blast
  have "update_item self_id x d = (Inr (), d')"
    using get_or_create_existing [OF a] own s by (simp add: update_item_def Let_def)
  then show ?thesis using e u o w by (rule that)
qed

lemma update_item_transfer:
  assumes wf: "wf_emails d" and a: "get_by_email (emails d) (ed_email x) = Inr a"
    and other: "ea_user_id a \<noteq> self_id" and unverified: "\<not> ea_verified a"
  obtains d' where "update_item self_id x d = (Inr (), d')"
    and "emails d' =
           write_email (emails d) (a\<lparr>ea_user_id := self_id, ea_primary := get_primary_flag x\<rparr>)"
    and "users d' = users d" and "outbox d' = outbox d @ [ed_email x]" and "wf_emails d'"
proof -
  let ?a' = "a\<lparr>ea_user_id := self_id, ea_primary := get_primary_flag x\<rparr>"
  from get_by_email_D [OF a] have m: "a \<in> set (emails d)" and em: "ea_email a = ed_email x"
    by simp_all
  have nz: "ea_id ?a' \<noteq> 0" using wf_emails_id [OF wf m] by simp
  from save_limit [OF wf nz] obtain d1 where
    s: "cached_email_save recursion_limit ?a' d = (Inr (), d1)" and
    e: "emails d1 = write_email (emails d) ?a'" and
    u: "users d1 = users d" and o: "outbox d1 = outbox d" and w: "wf_emails d1" by blast
  let ?d' = "d1\<lparr>outbox := outbox d1 @ [ed_email x]\<rparr>"
  have "update_item self_id x d = (Inr (), ?d')"
    using get_or_create_existing [OF a] other unverified s em
    by (simp add: update_item_def Let_def send_confirmation_def)
  moreover have "emails ?d' = write_email (emails d) ?a'" using e by simp
  moreover have "users ?d' = users d" using u by simp
  moreover have "outbox ?d' = outbox d @ [ed_email x]" using o by simp
  moreover have "wf_emails ?d'" using w by (simp add: wf_emails_def)
  ultimately show ?thesis by (rule that)
qed

lemma update_item_refused:
  assumes a: "get_by_email (emails d) (ed_email x) = Inr a"
    and other: "ea_user_id a \<noteq> self_id" and verified: "ea_verified a"
  shows "update_item self_id x d =
           (Inl (ValidationError (''Email '' @ [CHR 0x27] @ ed_email x @ [CHR 0x27] @
                                  '' may already be in use'')), d)"
  using get_or_create_existing [OF a] other verified by (simp add: update_item_def Let_def)

lemma update_item_several:
  assumes "get_by_email (emails d) (ed_email x) = Inl MultipleObjectsReturned"
  shows "update_item self_id x d = (Inl MultipleObjectsReturned, d)"
  using get_or_create_several [OF assms] by (simp add: update_item_def Let_def)

lemma item_doneI:
  assumes "r \<in> set (emails d)" "ea_email r = email" "ea_user_id r = self_id" "ea_primary r = flag"
    and "\<And>r'. r' \<in> set (emails d) \<Longrightarrow> ea_email r' = email \<Longrightarrow> r' = r"
  shows "item_done d self_id email flag"
  unfolding item_done_def using assms by blast

lemma update_item_written:
  assumes wf: "wf_emails d" and a: "get_by_email (emails d) (ed_email x) = Inr a"
    and e: "emails d' = write_email (emails d) a'"
    and a': "ea_id a' = ea_id a" "ea_email a' = ea_email a" "ea_user_id a' = self_id"
      "ea_primary a' = get_primary_flag x"
  shows "item_done d' self_id (ed_email x) (get_primary_flag x) \<and>
         (\<forall>r::email_address. ea_email r \<noteq> ed_email x \<longrightarrow> (r \<in> set (emails d') \<longleftrightarrow> r \<in> set (emails d)))"
proof -
  from get_by_email_D [OF a] have m: "a \<in> set (emails d)" and em: "ea_email a = ed_email x"
    by simp_all
  have s: "set (emails d') = insert a' {r \<in> set (emails d). ea_id r \<noteq> ea_id a}"
    unfolding e write_email_set a'(1) ..
  have same: "\<And>r. r \<in> set (emails d) \<Longrightarrow> ea_id r = ea_id a \<Longrightarrow> r = a"
    using wf_emails_inj [OF wf _ m] by blast
  have "item_done d' self_id (ed_email x) (get_primary_flag x)"
  proof (rule item_doneI [of a'])
    show "a' \<in> set (emails d')" unfolding s by simp
    show "ea_email a' = ed_email x" using a'(2) em by simp
    show "ea_user_id a' = self_id" by (rule a'(3))
    show "ea_primary a' = get_primary_flag x" by (rule a'(4))
  next
    fix r' assume r: "r' \<in> set (emails d')" "ea_email r' = ed_email x"
    show "r' = a'"
    proof (rule ccontr)
      assume "r' \<noteq> a'"
      with r(1) have i: "r' \<in> set (emails d)" "ea_id r' \<noteq> ea_id a" unfolding s by simp_all
      from get_by_email_unique [OF a i(1) r(2)] i(2) show False by simp
    qed
  qed
  moreover have "\<forall>r::email_address. ea_email r \<noteq> ed_email x \<longrightarrow> (r \<in> set (emails d') \<longleftrightarrow> r \<in> set (emails d))"
  proof (intro allI impI)
    fix r :: email_address assume n: "ea_email r \<noteq> ed_email x"
    then have "r \<noteq> a'" "r \<noteq> a" using a'(2) em by auto
    with same have "r \<in> set (emails d) \<Longrightarrow> ea_id r \<noteq> ea_id a" by blast
    with \<open>r \<noteq> a'\<close> show "r \<in> set (emails d') \<longleftrightarrow> r \<in> set (emails d)" unfolding s by auto
  qed
  ultimately show ?thesis ..
qed

lemma update_item_Inr:
  assumes wf: "wf_emails d" and ok: "update_item self_id x d = (Inr u, d')"
  shows "wf_emails d' \<and> users d' = users d \<and>
         item_done d' self_id (ed_email x) (get_primary_flag x) \<and>
         (\<forall>r::email_address. ea_email r \<noteq> ed_email x \<longrightarrow> (r \<in> set (emails d') \<longleftrightarrow> r \<in> set (emails d)))"
proof (cases "emails d" "ed_email x" rule: get_by_email_cases)
  case none
  let ?obj = "\<lparr>ea_id = next_email_pk (emails d), ea_email = ed_email x,
              ea_user_id = self_id, ea_primary = get_primary_flag x, ea_verified = False\<rparr>"
  from update_item_created [OF wf none, of self_id] obtain d1 where
    s: "update_item self_id x d = (Inr (), d1)" and e: "emails d1 = emails d @ [?obj]" and
    u: "users d1 = users d" and w: "wf_emails d1" by blast
  from s ok have d1: "d1 = d'" by simp
  have "item_done d' self_id (ed_email x) (get_primary_flag x)"
  proof (rule item_doneI [of ?obj])
    show "?obj \<in> set (emails d')" using e d1 by simp
  next
    fix r' assume r: "r' \<in> set (emails d')" "ea_email r' = ed_email x"
    from r(1) e d1 have "r' \<in> set (emails d) \<or> r' = ?obj" by auto
    with get_by_email_none [OF none] r(2) show "r' = ?obj" by blast
  qed simp_all
  moreover have "\<forall>r::email_address. ea_email r \<noteq> ed_email x \<longrightarrow> (r \<in> set (emails d') \<longleftrightarrow> r \<in> set (emails d))"
    using e d1 by auto
  ultimately show ?thesis using w u d1 by simp
next
  case several
  from update_item_several [OF several, of self_id] ok show ?thesis by simp
next
  case (one a)
  show ?thesis
  proof (cases "ea_user_id a = self_id")
    case True
    from update_item_own [OF wf one True] obtain d1 where
      s: "update_item self_id x d = (Inr (), d1)" and
      e: "emails d1 = write_email (emails d) (a\<lparr>ea_primary := get_primary_flag x\<rparr>)" and
      u: "users d1 = users d" and w: "wf_emails d1" by blast
    from s ok have d1: "d1 = d'" by simp
    from update_item_written [OF wf one e [unfolded d1]] True u w d1 show ?thesis by simp
  next
    case False
    show ?thesis
    proof (cases "ea_verified a")
      case True
      from update_item_refused [OF one False True] ok show ?thesis by simp
    next
      case unverified: False
      from update_item_transfer [OF wf one False unverified] obtain d1 where
        s: "update_item self_id x d = (Inr (), d1)" and
        e: "emails d1 =
              write_email (emails d) (a\<lparr>ea_user_id := self_id, ea_primary := get_primary_flag x\<rparr>)" and
        u: "users d1 = users d" and w: "wf_emails d1" by blast
      from s ok have d1: "d1 = d'" by simp
      from update_item_written [OF wf one e [unfolded d1]] u w d1 show ?thesis by simp
    qed
  qed
qed

lemma item_done_frame:
  assumes "item_done d self_id email flag"
    and "\<And>r::email_address. ea_email r = email \<Longrightarrow> (r \<in> set (emails d') \<longleftrightarrow> r \<in> set (emails d))"
  shows "item_done d' self_id email flag"
proof -
  from assms(1) obtain r where r: "r \<in> set (emails d)" "ea_email r = email"
    "ea_user_id r = self_id" "ea_primary r = flag"
    and u: "\<And>r'. r' \<in> set (emails d) \<Longrightarrow> ea_email r' = email \<Longrightarrow> r' = r"
    unfolding item_done_def by blast
  show ?thesis
  proof (rule item_doneI [of r])
    show "r \<in> set (emails d')" using r(1,2) assms(2) by blast
  next
    fix r' assume "r' \<in> set (emails d')" "ea_email r' = email"
    with assms(2) have "r' \<in> set (emails d)" by blast
    then show "r' = r" using \<open>ea_email r' = email\<close> by (rule u)
  qed (rule r)+
qed

lemma update_items_Inr:
  assumes "wf_emails d" and "update_items self_id val d = (Inr u, d1)"
  shows "wf_emails d1 \<and> users d1 = users d \<and>
         (\<forall>email \<in> set (map ed_email val). item_done d1 self_id email (last_flag val email)) \<and>
         (\<forall>r::email_address. ea_email r \<notin> set (map ed_email val) \<longrightarrow>
            (r \<in> set (emails d1) \<longleftrightarrow> r \<in> set (emails d)))"
  using assms
proof (induction val arbitrary: d)
  case Nil
  then show ?case by simp
next
  case (Cons x xs)
  from Cons.prems(2) obtain u' d' where
    s: "update_item self_id x d = (Inr u', d')" and l: "update_items self_id xs d' = (Inr u, d1)"
    by (cases "update_item self_id x d") (auto split: sum.splits)
  from update_item_Inr [OF Cons.prems(1) s] have
    w': "wf_emails d'" and u': "users d' = users d" and
    i': "item_done d' self_id (ed_email x) (get_primary_flag x)" and
    f': "\<And>r::email_address. ea_email r \<noteq> ed_email x \<Longrightarrow>
           (r \<in> set (emails d') \<longleftrightarrow> r \<in> set (emails d))"
    by blast+
  from Cons.IH [OF w' l] have
    w1: "wf_emails d1" and u1: "users d1 = users d'" and
    i1: "\<And>email. email \<in> set (map ed_email xs) \<Longrightarrow> item_done d1 self_id email (last_flag xs email)" and
    f1: "\<And>r::email_address. ea_email r \<notin> set (map ed_email xs) \<Longrightarrow>
           (r \<in> set (emails d1) \<longleftrightarrow> r \<in> set (emails d'))"
    by blast+
  have "\<forall>email \<in> set (map ed_email (x # xs)).
          item_done d1 self_id email (last_flag (x # xs) email)"
  proof
    fix email assume m: "email \<in> set (map ed_email (x # xs))"
    show "item_done d1 self_id email (last_flag (x # xs) email)"
    proof (cases "email \<in> set (map ed_email xs)")
      case True
      with i1 [OF True] show ?thesis by simp
    next
      case False
      with m have e: "email = ed_email x" by simp
      have "item_done d1 self_id (ed_email x) (get_primary_flag x)"
      proof (rule item_done_frame [OF i'])
        fix r :: email_address assume "ea_email r = ed_email x"
        with False e have "ea_email r \<notin> set (map ed_email xs)" by simp
        then show "r \<in> set (emails d1) \<longleftrightarrow> r \<in> set (emails d')" by (rule f1)
      qed
      with False e show ?thesis by simp
    qed
  qed
  moreover have "\<forall>r::email_address. ea_email r \<notin> set (map ed_email (x # xs)) \<longrightarrow>
            (r \<in> set (emails d1) \<longleftrightarrow> r \<in> set (emails d))"
  proof (intro allI impI)
    fix r :: email_address assume "ea_email r \<notin> set (map ed_email (x # xs))"
    then have a: "ea_email r \<noteq> ed_email x" and b: "ea_email r \<notin> set (map ed_email xs)"
      by simp_all
    from f1 [OF b] f' [OF a] show "r \<in> set (emails d1) \<longleftrightarrow> r \<in> set (emails d)" by simp
  qed
  ultimately show ?case using w1 u1 u' by simp
qed

lemma remove_old_items_effect:
  "emails (remove_old_items idx rows d) =
     filter (\<lambda>r. \<not> (\<exists>a \<in> set rows. ea_id a = ea_id r \<and> ea_email a \<notin> set idx)) (emails d) \<and>
   users (remove_old_items idx rows d) = users d \<and>
   outbox (remove_old_items idx rows d) = outbox d"
proof (induction rows arbitrary: d)
  case Nil
  show ?case by simp
next
  case (Cons a rows)
  show ?case
  proof (cases "ea_email a \<notin> set idx")
    case True
    have "filter (\<lambda>r. \<not> (\<exists>a' \<in> set rows. ea_id a' = ea_id r \<and> ea_email a' \<notin> set idx))
            (filter (\<lambda>r. ea_id r \<noteq> ea_id a) (emails d)) =
          filter (\<lambda>r. \<not> (\<exists>a' \<in> set (a # rows). ea_id a' = ea_id r \<and> ea_email a' \<notin> set idx))
            (emails d)"
      using True by (auto intro: filter_cong)
    with True Cons.IH [of "delete_email a d"] show ?thesis
      by (simp add: delete_email_def)
  next
    case False
    have "filter (\<lambda>r. \<not> (\<exists>a' \<in> set rows. ea_id a' = ea_id r \<and> ea_email a' \<notin> set idx)) (emails d) =
          filter (\<lambda>r. \<not> (\<exists>a' \<in> set (a # rows). ea_id a' = ea_id r \<and> ea_email a' \<notin> set idx))
            (emails d)"
      using False by (auto intro: filter_cong)
    with False Cons.IH [of d] show ?thesis by simp
  qed
qed

lemma remove_old_items_own:
  assumes wf: "wf_emails d"
  shows "set (emails (remove_old_items idx (cached_emails d self_id) d)) =
           {r \<in> set (emails d). \<not> (ea_user_id r = self_id \<and> ea_email r \<notin> set idx)} \<and>
         wf_emails (remove_old_items idx (cached_emails d self_id) d)"
proof -
  let ?d' = "remove_old_items idx (cached_emails d self_id) d"
  let ?P = "\<lambda>r. \<not> (\<exists>a \<in> set (cached_emails d self_id). ea_id a = ea_id r \<and> ea_email a \<notin> set idx)"
  have e: "emails ?d' = filter ?P (emails d)"
    using remove_old_items_effect [of idx "cached_emails d self_id" d] by blast
  have "\<And>r. r \<in> set (emails d) \<Longrightarrow>
          ?P r \<longleftrightarrow> \<not> (ea_user_id r = self_id \<and> ea_email r \<notin> set idx)"
  proof -
    fix r assume r: "r \<in> set (emails d)"
    show "?P r \<longleftrightarrow> \<not> (ea_user_id r = self_id \<and> ea_email r \<notin> set idx)"
    proof
      assume p: "?P r"
      show "\<not> (ea_user_id r = self_id \<and> ea_email r \<notin> set idx)"
      proof
        assume "ea_user_id r = self_id \<and> ea_email r \<notin> set idx"
        with r have "r \<in> set (cached_emails d self_id)" "ea_email r \<notin> set idx"
          by (simp_all add: cached_emails_def)
        with p show False by blast
      qed
    next
      assume n: "\<not> (ea_user_id r = self_id \<and> ea_email r \<notin> set idx)"
      show "?P r"
      proof
        assume "\<exists>a \<in> set (cached_emails d self_id). ea_id a = ea_id r \<and> ea_email a \<notin> set idx"
        then obtain a where a: "a \<in> set (emails d)" "ea_user_id a = self_id"
          "ea_id a = ea_id r" "ea_email a \<notin> set idx"
          by (auto simp: cached_emails_def)
        from wf_emails_inj [OF wf a(1) r a(3)] a n show False by simp
      qed
    qed
  qed
  then have s: "set (emails ?d') =
                  {r \<in> set (emails d). \<not> (ea_user_id r = self_id \<and> ea_email r \<notin> set idx)}"
    unfolding e by auto
  from wf have "distinct (map ea_id (filter ?P (emails d)))"
    unfolding wf_emails_def by (simp add: distinct_map_filter)
  moreover from wf have "0 \<notin> set (map ea_id (filter ?P (emails d)))"
    unfolding wf_emails_def by auto
  ultimately have "wf_emails ?d'" unfolding wf_emails_def e by simp
  with s show ?thesis ..
qed

lemma sum_flags: "sum_list (map (\<lambda>e. if get_primary_flag e then 1 else 0 :: nat) val) = primary_entries val"
  unfolding primary_entries_def by (induction val) simp_all

lemma setter_invalid_count:
  assumes "primary_entries val \<noteq> 1"
  shows "\<exists>msg. email_items_setter self_id val d = (Inl (ValidationError msg), d)"
proof (cases "length val < 1")
  case True
  then show ?thesis by (simp add: email_items_setter_def)
next
  case False
  with assms show ?thesis by (simp add: email_items_setter_def sum_flags Let_def)
qed

lemma atomic_Inl:
  "atomic block d = (Inl e, d') \<Longrightarrow>
   emails d' = emails d \<and> variants d' = variants d \<and> users d' = users d"
  by (cases "block d") (auto simp: atomic_def split: sum.splits)

lemma setter_rollback:
  assumes "email_items_setter self_id val d = (Inl e, d')"
  shows "emails d' = emails d \<and> variants d' = variants d \<and> users d' = users d"
proof (cases "length val < 1 \<or> primary_entries val \<noteq> 1")
  case True
  with assms show ?thesis
    by (auto simp: email_items_setter_def sum_flags Let_def split: if_splits)
next
  case False
  with assms have "atomic
     (\<lambda>d0. case update_items self_id val d0 of
              (Inl e, d1) \<Rightarrow> (Inl e, d1)
            | (Inr u, d1) \<Rightarrow>
                (Inr (), remove_old_items (map ed_email val) (cached_emails d1 self_id) d1))
     d = (Inl e, d')"
    by (simp add: email_items_setter_def sum_flags Let_def)
  then show ?thesis by (rule atomic_Inl)
qed

lemma setter_Inr:
  assumes "email_items_setter self_id val d = (Inr u, d2)"
  shows "primary_entries val = 1 \<and>
         (\<exists>d1. update_items self_id val d = (Inr (), d1) \<and>
               d2 = remove_old_items (map ed_email val) (cached_emails d1 self_id) d1)"
proof -
  from assms have c: "\<not> length val < 1" "primary_entries val = 1"
    by (auto simp: email_items_setter_def sum_flags Let_def split: if_splits)
  with assms have a: "atomic
     (\<lambda>d0. case update_items self_id val d0 of
              (Inl e, d1) \<Rightarrow> (Inl e, d1)
            | (Inr u, d1) \<Rightarrow>
                (Inr (), remove_old_items (map ed_email val) (cached_emails d1 self_id) d1))
     d = (Inr u, d2)"
    by (simp add: email_items_setter_def sum_flags Let_def)
  obtain res d1 where l: "update_items self_id val d = (res, d1)"
    by (cases "update_items self_id val d")
  from a l have "\<exists>u1. res = Inr u1"
    by (cases res) (simp_all add: atomic_def)
  with l have l': "update_items self_id val d = (Inr (), d1)" by auto
  with a have "d2 = remove_old_items (map ed_email val) (cached_emails d1 self_id) d1"
    by (simp add: atomic_def)
  with c l' show ?thesis by blast
qed

lemma primary_count_le1:
  assumes "wf_emails d"
  shows "primary_count d user \<le> 1 \<longleftrightarrow>
           (\<forall>r \<in> set (emails d). \<forall>r' \<in> set (emails d).
              ea_user_id r = user \<and> ea_primary r \<longrightarrow> ea_user_id r' = user \<and> ea_primary r' \<longrightarrow>
              r = r')"
proof -
  let ?A = "{r. ea_user_id r = user \<and> ea_primary r} \<inter> set (emails d)"
  from wf_emails_distinct [OF assms] have "primary_count d user = card ?A"
    unfolding primary_count_def by (rule distinct_length_filter)
  moreover have "finite ?A" by simp
  then have "card ?A \<le> Suc 0 \<longleftrightarrow> (\<forall>a \<in> ?A. \<forall>b \<in> ?A. a = b)"
    by (rule card_le_Suc0_iff_eq)
  ultimately show ?thesis by auto
qed

lemma primary_count_eq1:
  assumes wf: "wf_emails d" and r: "r \<in> set (emails d)" "ea_user_id r = user" "ea_primary r"
    and u: "\<And>r'. r' \<in> set (emails d) \<Longrightarrow> ea_user_id r' = user \<Longrightarrow> ea_primary r' \<Longrightarrow> r' = r"
  shows "primary_count d user = 1"
proof -
  let ?A = "{r. ea_user_id r = user \<and> ea_primary r} \<inter> set (emails d)"
  from wf_emails_distinct [OF wf] have "primary_count d user = card ?A"
    unfolding primary_count_def by (rule distinct_length_filter)
  moreover have "?A = {r}" using r u by blast
  ultimately show ?thesis by simp
qed

lemma last_flag_mem:
  "last_flag val email \<Longrightarrow> \<exists>x \<in> set val. ed_email x = email \<and> get_primary_flag x"
  by (induction val) (auto split: if_splits)

lemma last_flag_one:
  assumes "primary_entries val = 1" and "last_flag val email" and "last_flag val email'"
  shows "email = email'"
proof -
  from assms(1) obtain x0 where x0: "filter get_primary_flag val = [x0]"
    unfolding primary_entries_def by (auto simp: length_Suc_conv)
  from last_flag_mem [OF assms(2)] obtain x where
    x: "x \<in> set val" "ed_email x = email" "get_primary_flag x" by blast
  from last_flag_mem [OF assms(3)] obtain y where
    y: "y \<in> set val" "ed_email y = email'" "get_primary_flag y" by blast
  from x have "x \<in> set (filter get_primary_flag val)" by simp
  moreover from y have "y \<in> set (filter get_primary_flag val)" by simp
  ultimately have "x = x0" "y = x0" unfolding x0 by simp_all
  with x(2) y(2) show ?thesis by simp
qed

lemma last_flag_distinct:
  "distinct (map ed_email val) \<Longrightarrow> x \<in> set val \<Longrightarrow> last_flag val (ed_email x) = get_primary_flag x"
proof (induction val)
  case Nil
  then show ?case by simp
next
  case (Cons a val)
  show ?case
  proof (cases "x = a")
    case True
    with Cons.prems(1) show ?thesis by simp
  next
    case False
    with Cons.prems have m: "x \<in> set val" and d: "distinct (map ed_email val)" by simp_all
    from m have "ed_email x \<in> set (map ed_email val)" by simp
    with Cons.IH [OF d m] show ?thesis by simp
  qed
qed

lemma item_done_row:
  assumes "item_done d self_id email flag" and "r \<in> set (emails d)" and "ea_email r = email"
  shows "ea_user_id r = self_id \<and> ea_primary r = flag"
  using assms unfolding item_done_def by blast

lemma item_done_unique:
  assumes "item_done d self_id email flag" and "r \<in> set (emails d)" and "ea_email r = email"
    and "r' \<in> set (emails d)" and "ea_email r' = email"
  shows "r = r'"
  using assms unfolding item_done_def by blast

lemma setter_final_rows:
  assumes wf: "wf_emails d" and ok: "email_items_setter self_id val d = (Inr u, d2)"
  shows "\<exists>d1. wf_emails d1 \<and> wf_emails d2 \<and> primary_entries val = 1 \<and>
           set (emails d2) =
             {r \<in> set (emails d1).
                \<not> (ea_user_id r = self_id \<and> ea_email r \<notin> set (map ed_email val))} \<and>
           (\<forall>email \<in> set (map ed_email val). item_done d1 self_id email (last_flag val email)) \<and>
           (\<forall>r::email_address. ea_email r \<notin> set (map ed_email val) \<longrightarrow>
              (r \<in> set (emails d1) \<longleftrightarrow> r \<in> set (emails d)))"
proof -
  from setter_Inr [OF ok] obtain d1 where
    c: "primary_entries val = 1" and l: "update_items self_id val d = (Inr (), d1)" and
    d2: "d2 = remove_old_items (map ed_email val) (cached_emails d1 self_id) d1"
    by blast
  note a = update_items_Inr [OF wf l]
  from a have w1: "wf_emails d1" by (rule conjunct1)
  from remove_old_items_own [OF w1, of "map ed_email val" self_id] d2 have
    s: "set (emails d2) =
           {r \<in> set (emails d1). \<not> (ea_user_id r = self_id \<and> ea_email r \<notin> set (map ed_email val))}"
    and w2: "wf_emails d2" by simp_all
  from a have "(\<forall>email \<in> set (map ed_email val). item_done d1 self_id email (last_flag val email)) \<and>
         (\<forall>r::email_address. ea_email r \<notin> set (map ed_email val) \<longrightarrow>
            (r \<in> set (emails d1) \<longleftrightarrow> r \<in> set (emails d)))"
    by (intro conjunct2 [OF conjunct2 [OF a]])
  with w1 w2 c s show ?thesis by (intro exI [of _ d1] conjI) simp_all
qed

lemma setter_at_most_one:
  assumes wf: "wf_emails d" and amo: "at_most_one_primary d"
    and run: "email_items_setter self_id val d = (res, d2)"
  shows "at_most_one_primary d2"
proof (cases res)
  case (Inl e)
  with run have "emails d2 = emails d" by (simp add: setter_rollback)
  then have "\<And>user. primary_count d2 user = primary_count d user"
    by (simp add: primary_count_def)
  with amo show ?thesis by (simp add: at_most_one_primary_def)
next
  case (Inr u)
  with run have ok: "email_items_setter self_id val d = (Inr u, d2)" by simp
  let ?idx = "set (map ed_email val)"
  from setter_final_rows [OF wf ok] obtain d1 where
    w1: "wf_emails d1" and w2: "wf_emails d2" and c: "primary_entries val = 1" and
    s: "set (emails d2) =
           {r \<in> set (emails d1). \<not> (ea_user_id r = self_id \<and> ea_email r \<notin> ?idx)}" and
    i1': "\<forall>email \<in> ?idx. item_done d1 self_id email (last_flag val email)" and
    f1': "\<forall>r::email_address. ea_email r \<notin> ?idx \<longrightarrow>
           (r \<in> set (emails d1) \<longleftrightarrow> r \<in> set (emails d))"
    by (elim exE conjE)
  note i1 = i1' [rule_format] and f1 = f1' [rule_format]
  have "\<And>user. primary_count d2 user \<le> 1"
  proof -
    fix user
    have "\<forall>r \<in> set (emails d2). \<forall>r' \<in> set (emails d2).
              ea_user_id r = user \<and> ea_primary r \<longrightarrow> ea_user_id r' = user \<and> ea_primary r' \<longrightarrow>
              r = r'"
    proof (intro ballI impI)
      fix r r'
      assume r2: "r \<in> set (emails d2)" and r2': "r' \<in> set (emails d2)"
        and p: "ea_user_id r = user \<and> ea_primary r" and p': "ea_user_id r' = user \<and> ea_primary r'"
      from r2 s have r1: "r \<in> set (emails d1)"
        and k: "\<not> (ea_user_id r = self_id \<and> ea_email r \<notin> ?idx)" by simp_all
      from r2' s have r1': "r' \<in> set (emails d1)"
        and k': "\<not> (ea_user_id r' = self_id \<and> ea_email r' \<notin> ?idx)" by simp_all
      have in_idx: "\<And>q. q \<in> set (emails d1) \<Longrightarrow> ea_email q \<in> ?idx \<Longrightarrow>
                      ea_user_id q = self_id \<and> ea_primary q = last_flag val (ea_email q)"
      proof -
        fix q assume "q \<in> set (emails d1)" "ea_email q \<in> ?idx"
        from item_done_row [OF i1 [OF this(2)] this(1)]
        show "ea_user_id q = self_id \<and> ea_primary q = last_flag val (ea_email q)" by simp
      qed
      show "r = r'"
      proof (cases "ea_email r \<in> ?idx")
        case True
        from in_idx [OF r1 True] p have us: "user = self_id" and lf: "last_flag val (ea_email r)"
          by simp_all
        from us p' k' have t': "ea_email r' \<in> ?idx" by blast
        from in_idx [OF r1' t'] p' have lf': "last_flag val (ea_email r')" by simp
        from last_flag_one [OF c lf lf'] have "ea_email r' = ea_email r" by (rule sym)
        from item_done_unique [OF i1 [OF True] r1 refl r1' this] show ?thesis .
      next
        case False
        with k p have ns: "user \<noteq> self_id" by blast
        have f': "ea_email r' \<notin> ?idx"
        proof
          assume "ea_email r' \<in> ?idx"
          from in_idx [OF r1' this] p' ns show False by simp
        qed
        from f1 [OF False] r1 have rd: "r \<in> set (emails d)" by simp
        from f1 [OF f'] r1' have rd': "r' \<in> set (emails d)" by simp
        from amo have "primary_count d user \<le> 1" by (simp add: at_most_one_primary_def)
        with primary_count_le1 [OF wf, of user] have
          "\<forall>r \<in> set (emails d). \<forall>r' \<in> set (emails d).
              ea_user_id r = user \<and> ea_primary r \<longrightarrow> ea_user_id r' = user \<and> ea_primary r' \<longrightarrow>
              r = r'" by (rule iffD1)
        from this [rule_format, OF rd rd' p p'] show ?thesis .
      qed
    qed
    with primary_count_le1 [OF w2, of user] show "primary_count d2 user \<le> 1" by simp
  qed
  then show ?thesis by (simp add: at_most_one_primary_def)
qed

lemma setter_exactly_one:
  assumes wf: "wf_emails d" and ok: "email_items_setter self_id val d = (Inr u, d2)"
    and dist: "distinct (map ed_email val)"
  shows "primary_count d2 self_id = 1"
proof -
  let ?idx = "set (map ed_email val)"
  from setter_final_rows [OF wf ok] obtain d1 where
    w1: "wf_emails d1" and w2: "wf_emails d2" and c: "primary_entries val = 1" and
    s: "set (emails d2) =
           {r \<in> set (emails d1). \<not> (ea_user_id r = self_id \<and> ea_email r \<notin> ?idx)}" and
    i1': "\<forall>email \<in> ?idx. item_done d1 self_id email (last_flag val email)" and
    f1': "\<forall>r::email_address. ea_email r \<notin> ?idx \<longrightarrow>
           (r \<in> set (emails d1) \<longleftrightarrow> r \<in> set (emails d))"
    by (elim exE conjE)
  note i1 = i1' [rule_format] and f1 = f1' [rule_format]
  from c obtain x0 where "filter get_primary_flag val = [x0]"
    unfolding primary_entries_def by (auto simp: length_Suc_conv)
  then have "x0 \<in> set (filter get_primary_flag val)" by simp
  then have x0: "x0 \<in> set val" "get_primary_flag x0" by simp_all
  from last_flag_distinct [OF dist x0(1)] x0(2) have lf0: "last_flag val (ed_email x0)" by simp
  from x0(1) have m0: "ed_email x0 \<in> ?idx" by simp
  from i1 [OF m0] lf0 obtain r0 where
    r0: "r0 \<in> set (emails d1)" "ea_email r0 = ed_email x0" "ea_user_id r0 = self_id" "ea_primary r0"
    unfolding item_done_def by auto
  show ?thesis
  proof (rule primary_count_eq1 [OF w2, of r0])
    show "r0 \<in> set (emails d2)" using r0 m0 unfolding s by simp
    show "ea_user_id r0 = self_id" by (rule r0(3))
    show "ea_primary r0" by (rule r0(4))
  next
    fix r' assume r': "r' \<in> set (emails d2)" "ea_user_id r' = self_id" "ea_primary r'"
    from r'(1,2) have r1': "r' \<in> set (emails d1)" and t': "ea_email r' \<in> ?idx"
      unfolding s by auto
    from item_done_row [OF i1 [OF t'] r1'] r'(3) have "last_flag val (ea_email r')" by simp
    from last_flag_one [OF c this lf0] have e: "ea_email r' = ed_email x0" .
    from item_done_unique [OF i1 [OF m0] r1' e r0(1) r0(2)] show "r' = r0" .
  qed
qed

lemma get_primary_None:
  assumes "\<And>r. r \<in> set (emails d) \<Longrightarrow> ea_user_id r = user \<Longrightarrow> \<not> ea_primary r"
  shows "get_primary d user = Inr None"
proof -
  from assms have "filter (\<lambda>r. ea_user_id r = user \<and> ea_primary r) (emails d) = []"
    by (auto simp: filter_empty_conv)
  then show ?thesis by (simp add: get_primary_def get_one_def)
qed

lemma get_primary_cases:
  assumes amo: "at_most_one_primary d"
  obtains (none) "get_primary d user = Inr None"
      and "\<And>r. r \<in> set (emails d) \<Longrightarrow> ea_user_id r = user \<Longrightarrow> \<not> ea_primary r"
  | (some) old where "get_primary d user = Inr (Some old)"
      and "old \<in> set (emails d)" and "ea_user_id old = user" and "ea_primary old"
      and "\<And>r. r \<in> set (emails d) \<Longrightarrow> ea_user_id r = user \<Longrightarrow> ea_primary r \<Longrightarrow> r = old"
proof -
  let ?P = "filter (\<lambda>r. ea_user_id r = user \<and> ea_primary r) (emails d)"
  from amo have "length ?P \<le> 1" by (simp add: at_most_one_primary_def primary_count_def)
  then consider "?P = []" | old where "?P = [old]"
    by (cases ?P) (auto simp: length_Suc_conv)
  then show ?thesis
  proof cases
    case 1
    then have n: "\<And>r. r \<in> set (emails d) \<Longrightarrow> ea_user_id r = user \<Longrightarrow> \<not> ea_primary r"
      by (auto simp: filter_empty_conv)
    from get_primary_None [OF this] n show ?thesis by (rule none)
  next
    case 2
    then have g: "get_primary d user = Inr (Some old)" by (simp add: get_primary_def get_one_def)
    from 2 have "old \<in> set ?P" by simp
    then have o: "old \<in> set (emails d)" "ea_user_id old = user" "ea_primary old" by simp_all
    have u: "\<And>r. r \<in> set (emails d) \<Longrightarrow> ea_user_id r = user \<Longrightarrow> ea_primary r \<Longrightarrow> r = old"
    proof -
      fix r assume "r \<in> set (emails d)" "ea_user_id r = user" "ea_primary r"
      then have "r \<in> set ?P" by simp
      then show "r = old" unfolding 2 by simp
    qed
    from g o u show ?thesis by (rule some)
  qed
qed

lemma get_user_D: "get_user d pk = Inr usr \<Longrightarrow> bu_id usr = pk"
  unfolding get_user_def by (drule get_one_mem) simp

lemma set_as_primary_conditional:
  assumes "get_user d (ea_user_id self) = Inr usr"
    and "get_primary d (ea_user_id self) = Inr (Some old)"
  shows "set_as_primary self True d = (Inr False, d)"
  using assms get_user_D [OF assms(1)] by (simp add: set_as_primary_def)

text \<open>The promotion itself, on a table where the user has no primary address.\<close>

lemma promote:
  assumes wf: "wf_emails dE" and usr: "get_user dE (ea_user_id self) = Inr usr"
    and nz: "ea_id self \<noteq> 0"
    and np: "\<And>r. r \<in> set (emails dE) \<Longrightarrow> ea_user_id r = ea_user_id self \<Longrightarrow> \<not> ea_primary r"
  shows "\<exists>d'. emailaddress_set_as_primary self conditional dE = (Inr True, d') \<and>
              emails d' = write_email (emails dE) (self\<lparr>ea_primary := True\<rparr>) \<and> wf_emails d'"
proof -
  let ?s = "self\<lparr>ea_primary := True\<rparr>"
  from get_user_D [OF usr] have b: "bu_id usr = ea_user_id self" .
  from get_primary_None [of dE "ea_user_id self"] np
  have g: "get_primary dE (ea_user_id self) = Inr None" by blast
  have "ea_id ?s \<noteq> 0" using nz by simp
  from save_limit [OF wf this] obtain d2 where
    s: "cached_email_save recursion_limit ?s dE = (Inr (), d2)" and
    e: "emails d2 = write_email (emails dE) ?s" and w: "wf_emails d2" by blast
  let ?d' = "set_user_email usr (ea_email self) d2"
  have "emailaddress_set_as_primary self conditional dE = (Inr True, ?d')"
    using usr b g s by (simp add: emailaddress_set_as_primary_def)
  moreover have "emails ?d' = write_email (emails dE) ?s"
    using e by (simp add: set_user_email_def)
  moreover have "wf_emails ?d'" using w by (simp add: wf_emails_def set_user_email_def)
  ultimately show ?thesis by blast
qed

lemma promoted_counts:
  assumes wf: "wf_emails d" and amo: "at_most_one_primary d" and wf': "wf_emails d'"
    and e: "emails d' = write_email (emails dE) (self\<lparr>ea_primary := True\<rparr>)"
    and np: "\<And>r. r \<in> set (emails dE) \<Longrightarrow> ea_user_id r = ea_user_id self \<Longrightarrow> \<not> ea_primary r"
    and fr: "\<And>r. r \<in> set (emails dE) \<Longrightarrow> ea_user_id r \<noteq> ea_user_id self \<Longrightarrow>
               r \<in> set (emails d)"
  shows "self\<lparr>ea_primary := True\<rparr> \<in> set (emails d') \<and>
         primary_count d' (ea_user_id self) = 1 \<and> at_most_one_primary d'"
proof -
  let ?s = "self\<lparr>ea_primary := True\<rparr>"
  have S: "set (emails d') = insert ?s {r \<in> set (emails dE). ea_id r \<noteq> ea_id self}"
    unfolding e write_email_set by simp
  then have m: "?s \<in> set (emails d')" by simp
  have one: "primary_count d' (ea_user_id self) = 1"
  proof (rule primary_count_eq1 [OF wf' m])
    fix r' assume r': "r' \<in> set (emails d')" "ea_user_id r' = ea_user_id self" "ea_primary r'"
    show "r' = ?s"
    proof (rule ccontr)
      assume "r' \<noteq> ?s"
      with r'(1) S have "r' \<in> set (emails dE)" by simp
      from np [OF this r'(2)] r'(3) show False by simp
    qed
  qed simp_all
  have "\<And>user. primary_count d' user \<le> 1"
  proof -
    fix user
    show "primary_count d' user \<le> 1"
    proof (cases "user = ea_user_id self")
      case True
      with one show ?thesis by simp
    next
      case False
      have old: "\<And>r. r \<in> set (emails d') \<Longrightarrow> ea_user_id r = user \<Longrightarrow> r \<in> set (emails d)"
      proof -
        fix r assume r: "r \<in> set (emails d')" "ea_user_id r = user"
        with False have "r \<noteq> ?s" by auto
        with r(1) S have "r \<in> set (emails dE)" by simp
        then show "r \<in> set (emails d)" using r(2) False by (intro fr) simp_all
      qed
      from amo have "primary_count d user \<le> 1" by (simp add: at_most_one_primary_def)
      with primary_count_le1 [OF wf, of user] have
        u: "\<forall>r \<in> set (emails d). \<forall>r' \<in> set (emails d).
              ea_user_id r = user \<and> ea_primary r \<longrightarrow> ea_user_id r' = user \<and> ea_primary r' \<longrightarrow>
              r = r'" by (rule iffD1)
      have "\<forall>r \<in> set (emails d'). \<forall>r' \<in> set (emails d').
              ea_user_id r = user \<and> ea_primary r \<longrightarrow> ea_user_id r' = user \<and> ea_primary r' \<longrightarrow>
              r = r'"
      proof (intro ballI impI)
        fix r r' assume a: "r \<in> set (emails d')" "r' \<in> set (emails d')"
          "ea_user_id r = user \<and> ea_primary r" "ea_user_id r' = user \<and> ea_primary r'"
        from old [OF a(1)] a(3) have "r \<in> set (emails d)" by simp
        moreover from old [OF a(2)] a(4) have "r' \<in> set (emails d)" by simp
        ultimately show "r = r'" using u [rule_format, OF _ _ a(3) a(4)] by simp
      qed
      with primary_count_le1 [OF wf', of user] show ?thesis by simp
    qed
  qed
  then have "at_most_one_primary d'" by (simp add: at_most_one_primary_def)
  with m one show ?thesis by simp
qed

lemma set_as_primary_promotes:
  assumes wf: "wf_emails d" and amo: "at_most_one_primary d" and m: "self \<in> set (emails d)"
    and usr: "get_user d (ea_user_id self) = Inr usr"
    and nc: "\<not> (conditional \<and> get_primary d (ea_user_id self) \<noteq> Inr None)"
  shows "\<exists>d'. set_as_primary self conditional d = (Inr True, d') \<and>
              self\<lparr>ea_primary := True\<rparr> \<in> set (emails d') \<and>
              primary_count d' (ea_user_id self) = 1 \<and> at_most_one_primary d' \<and>
              (\<forall>old. get_primary d (ea_user_id self) = Inr (Some old) \<and> ea_id old \<noteq> ea_id self \<longrightarrow>
                 old\<lparr>ea_primary := False\<rparr> \<in> set (emails d'))"
proof -
  from get_user_D [OF usr] have b: "bu_id usr = ea_user_id self" .
  from wf_emails_id [OF wf m] have nz: "ea_id self \<noteq> 0" .
  show ?thesis
  proof (rule get_primary_cases [OF amo, of "ea_user_id self"])
    assume none: "get_primary d (ea_user_id self) = Inr None"
      "\<And>r. r \<in> set (emails d) \<Longrightarrow> ea_user_id r = ea_user_id self \<Longrightarrow> \<not> ea_primary r"
    from promote [OF wf usr nz none(2), of conditional] obtain d' where
      p: "emailaddress_set_as_primary self conditional d = (Inr True, d')" and
      e: "emails d' = write_email (emails d) (self\<lparr>ea_primary := True\<rparr>)" and
      w': "wf_emails d'" by blast
    have s: "set_as_primary self conditional d = (Inr True, d')"
      using usr b none(1) p by (simp add: set_as_primary_def)
    from promoted_counts [OF wf amo w' e none(2)] have
      "self\<lparr>ea_primary := True\<rparr> \<in> set (emails d') \<and>
       primary_count d' (ea_user_id self) = 1 \<and> at_most_one_primary d'" by simp
    with s none(1) show ?thesis by simp
  next
    fix old
    assume some: "get_primary d (ea_user_id self) = Inr (Some old)"
      "old \<in> set (emails d)" "ea_user_id old = ea_user_id self" "ea_primary old"
      "\<And>r. r \<in> set (emails d) \<Longrightarrow> ea_user_id r = ea_user_id self \<Longrightarrow> ea_primary r \<Longrightarrow>
         r = old"
    from nc some(1) have c: "\<not> conditional" by simp
    let ?o = "old\<lparr>ea_primary := False\<rparr>"
    have "ea_id ?o \<noteq> 0" using wf_emails_id [OF wf some(2)] by simp
    from save_limit [OF wf this] obtain dA where
      sA: "cached_email_save recursion_limit ?o d = (Inr (), dA)" and
      eA: "emails dA = write_email (emails d) ?o" and uA: "users dA = users d" and
      wA: "wf_emails dA" by blast
    have SA: "set (emails dA) = insert ?o {r \<in> set (emails d). ea_id r \<noteq> ea_id old}"
      unfolding eA write_email_set by simp
    have usrA: "get_user dA (ea_user_id self) = Inr usr"
      using usr uA by (simp add: get_user_def)
    have npA: "\<And>r. r \<in> set (emails dA) \<Longrightarrow> ea_user_id r = ea_user_id self \<Longrightarrow> \<not> ea_primary r"
    proof
      fix r assume r: "r \<in> set (emails dA)" "ea_user_id r = ea_user_id self" "ea_primary r"
      from r(3) have "r \<noteq> ?o" by auto
      with r(1) SA have i: "r \<in> set (emails d)" "ea_id r \<noteq> ea_id old" by simp_all
      from some(5) [OF i(1) r(2) r(3)] i(2) show False by simp
    qed
    have frA: "\<And>r. r \<in> set (emails dA) \<Longrightarrow> ea_user_id r \<noteq> ea_user_id self \<Longrightarrow>
                 r \<in> set (emails d)"
    proof -
      fix r assume r: "r \<in> set (emails dA)" "ea_user_id r \<noteq> ea_user_id self"
      with some(3) have "r \<noteq> ?o" by auto
      with r(1) SA show "r \<in> set (emails d)" by simp
    qed
    from promote [OF wA usrA nz npA, of conditional] obtain d' where
      p: "emailaddress_set_as_primary self conditional dA = (Inr True, d')" and
      e: "emails d' = write_email (emails dA) (self\<lparr>ea_primary := True\<rparr>)" and
      w': "wf_emails d'" by blast
    have s: "set_as_primary self conditional d = (Inr True, d')"
      using usr b some(1) c sA p by (simp add: set_as_primary_def)
    from promoted_counts [OF wf amo w' e npA frA] have
      k: "self\<lparr>ea_primary := True\<rparr> \<in> set (emails d') \<and>
       primary_count d' (ea_user_id self) = 1 \<and> at_most_one_primary d'" by simp
    have S': "set (emails d') =
                insert (self\<lparr>ea_primary := True\<rparr>) {r \<in> set (emails dA). ea_id r \<noteq> ea_id self}"
      unfolding e write_email_set by simp
    have "ea_id old \<noteq> ea_id self \<Longrightarrow> ?o \<in> set (emails d')"
      unfolding S' SA by simp
    with s k some(1) show ?thesis by auto
  qed
qed

lemma lower_bob: "lower ''bob@b.nl'' = ''bob@b.nl''"
  by (simp add: lower_def lower_char_def is_upper_def)

lemma cached_email_save_lower:
  "ea_email self = lower (ea_email self) \<Longrightarrow>
   cached_email_save recursion_limit self d = (Inr (), d\<lparr>emails := write_email (emails d) self\<rparr>)"
  unfolding recursion_limit_Suc by (rule cached_email_save_exists) simp

lemma setter_ex:
  "email_items_setter 1 [bob_entry] db_ex = (Inr (), db_ex_after)"
proof -
  let ?a = "\<lparr>ea_id = 2, ea_email = ''bob@b.nl'', ea_user_id = 2, ea_primary = True, ea_verified = False\<rparr>"
  let ?a' = "\<lparr>ea_id = 2, ea_email = ''bob@b.nl'', ea_user_id = 1, ea_primary = True, ea_verified = False\<rparr>"
  have g: "get_or_create ''bob@b.nl'' 1 True db_ex = (Inr (?a, False), db_ex)"
    by (simp add: get_or_create_def get_by_email_def get_one_def db_ex_def)
  have s: "cached_email_save recursion_limit ?a' db_ex =
             (Inr (), db_ex\<lparr>emails := write_email (emails db_ex) ?a'\<rparr>)"
    by (rule cached_email_save_lower) (simp add: lower_bob)
  have u: "update_item 1 bob_entry db_ex =
             (Inr (), db_ex\<lparr>emails := write_email (emails db_ex) ?a', outbox := [''bob@b.nl'']\<rparr>)"
    using g s by (simp add: update_item_def bob_entry_def get_primary_flag_def
        send_confirmation_def db_ex_def)
  have "primary_entries [bob_entry] = 1"
    by (simp add: primary_entries_def bob_entry_def get_primary_flag_def)
  then have c: "sum_list (map (\<lambda>e. if get_primary_flag e then 1 else 0 :: nat) [bob_entry]) = 1"
    by (simp only: sum_flags)
  show ?thesis
    using u c
    by (simp add: email_items_setter_def atomic_def cached_emails_def write_email_def
        delete_email_def db_ex_def db_ex_after_def bob_entry_def)
qed







lemma last_flag_Cons_new:
  "ed_email y \<notin> set (map ed_email ys) \<Longrightarrow> last_flag (y # ys) (ed_email y) = get_primary_flag y"
  by simp







lemma wf_db_ex: "wf_emails db_ex"
  by (simp add: wf_emails_def db_ex_def)




text \<open>
  Claim C3, as amended. No user has two addresses marked primary, and the public
  operations keep it so. The setter of \<open>email_items\<close> raises ValidationError unless
  exactly one submitted entry is marked primary; after a successful call with pairwise
  different emails the user has exactly one primary address. \<open>set_as_primary\<close> with
  \<open>conditional=True\<close> and an existing primary address returns False and changes
  nothing; otherwise it demotes the previously primary address and promotes the new
  one, which is then the one primary address of the user.
\<close>

theorem primary_email_kept:
  "(primary_entries val \<noteq> 1 \<longrightarrow>
      (\<exists>msg. email_items_setter self_id val d = (Inl (ValidationError msg), d))) \<and>
   (wf_emails d \<and> at_most_one_primary d \<and> email_items_setter self_id val d = (res, d2) \<longrightarrow>
      at_most_one_primary d2) \<and>
   (wf_emails d \<and> email_items_setter self_id val d = (Inr u, d2) \<and>
    distinct (map ed_email val) \<longrightarrow>
      primary_count d2 self_id = 1) \<and>
   (get_user d (ea_user_id self) = Inr usr \<and>
    get_primary d (ea_user_id self) = Inr (Some old) \<longrightarrow>
      set_as_primary self True d = (Inr False, d)) \<and>
   (wf_emails d \<and> at_most_one_primary d \<and> self \<in> set (emails d) \<and>
    get_user d (ea_user_id self) = Inr usr \<and>
    \<not> (conditional \<and> get_primary d (ea_user_id self) \<noteq> Inr None) \<longrightarrow>
      (\<exists>d'. set_as_primary self conditional d = (Inr True, d') \<and>
            self\<lparr>ea_primary := True\<rparr> \<in> set (emails d') \<and>
            primary_count d' (ea_user_id self) = 1 \<and> at_most_one_primary d' \<and>
            (\<forall>old. get_primary d (ea_user_id self) = Inr (Some old) \<and>
                   ea_id old \<noteq> ea_id self \<longrightarrow>
               old\<lparr>ea_primary := False\<rparr> \<in> set (emails d'))))"
proof (intro conjI impI)
  assume "primary_entries val \<noteq> 1"
  then show "\<exists>msg. email_items_setter self_id val d = (Inl (ValidationError msg), d)"
    by (rule setter_invalid_count)
next
  assume "wf_emails d \<and> at_most_one_primary d \<and> email_items_setter self_id val d = (res, d2)"
  then have "wf_emails d" "at_most_one_primary d" "email_items_setter self_id val d = (res, d2)"
    by simp_all
  then show "at_most_one_primary d2" by (rule setter_at_most_one)
next
  assume "wf_emails d \<and> email_items_setter self_id val d = (Inr u, d2) \<and>
    distinct (map ed_email val)"
  then have "wf_emails d" "email_items_setter self_id val d = (Inr u, d2)"
    "distinct (map ed_email val)" by simp_all
  then show "primary_count d2 self_id = 1" by (rule setter_exactly_one)
next
  assume "get_user d (ea_user_id self) = Inr usr \<and>
    get_primary d (ea_user_id self) = Inr (Some old)"
  then have "get_user d (ea_user_id self) = Inr usr"
    "get_primary d (ea_user_id self) = Inr (Some old)" by simp_all
  then show "set_as_primary self True d = (Inr False, d)" by (rule set_as_primary_conditional)
next
  assume "wf_emails d \<and> at_most_one_primary d \<and> self \<in> set (emails d) \<and>
    get_user d (ea_user_id self) = Inr usr \<and>
    \<not> (conditional \<and> get_primary d (ea_user_id self) \<noteq> Inr None)"
  then have "wf_emails d" "at_most_one_primary d" "self \<in> set (emails d)"
    "get_user d (ea_user_id self) = Inr usr"
    "\<not> (conditional \<and> get_primary d (ea_user_id self) \<noteq> Inr None)" by simp_all
  then show "\<exists>d'. set_as_primary self conditional d = (Inr True, d') \<and>
            self\<lparr>ea_primary := True\<rparr> \<in> set (emails d') \<and>
            primary_count d' (ea_user_id self) = 1 \<and> at_most_one_primary d' \<and>
            (\<forall>old. get_primary d (ea_user_id self) = Inr (Some old) \<and>
                   ea_id old \<noteq> ea_id self \<longrightarrow>
               old\<lparr>ea_primary := False\<rparr> \<in> set (emails d'))"
    by (rule set_as_primary_promotes)
qed

lemma amo_db_ex: "at_most_one_primary db_ex"
  by (auto simp: at_most_one_primary_def primary_count_def db_ex_def)

text \<open>
  Witness for C3: the hand-over of the example, an empty submission, and the second
  address of user 2 set as primary, conditionally and unconditionally.
\<close>

theorem primary_email_kept_witness:
  "wf_emails db_ex \<and> at_most_one_primary db_ex \<and>
   email_items_setter 1 [bob_entry] db_ex = (Inr (), db_ex_after) \<and>
   at_most_one_primary db_ex_after \<and> primary_count db_ex_after 1 = 1 \<and>
   (\<exists>msg. email_items_setter 1 [] db_ex = (Inl (ValidationError msg), db_ex)) \<and>
   set_as_primary
     \<lparr>ea_id = 3, ea_email = ''bob@work.nl'', ea_user_id = 2, ea_primary = False, ea_verified = True\<rparr>
     True db_ex = (Inr False, db_ex) \<and>
   (\<exists>d'. set_as_primary
           \<lparr>ea_id = 3, ea_email = ''bob@work.nl'', ea_user_id = 2, ea_primary = False, ea_verified = True\<rparr>
           False db_ex = (Inr True, d') \<and>
         \<lparr>ea_id = 3, ea_email = ''bob@work.nl'', ea_user_id = 2, ea_primary = True, ea_verified = True\<rparr>
           \<in> set (emails d') \<and>
         \<lparr>ea_id = 2, ea_email = ''bob@b.nl'', ea_user_id = 2, ea_primary = False, ea_verified = False\<rparr>
           \<in> set (emails d') \<and>
         primary_count d' 2 = 1 \<and> at_most_one_primary d')"
proof -
  let ?self = "\<lparr>ea_id = 3, ea_email = ''bob@work.nl'', ea_user_id = 2, ea_primary = False, ea_verified = True\<rparr>"
  let ?old = "\<lparr>ea_id = 2, ea_email = ''bob@b.nl'', ea_user_id = 2, ea_primary = True, ea_verified = False\<rparr>"
  let ?bob = "\<lparr>bu_id = 2, bu_email = ''bob@b.nl''\<rparr>"
  note t = primary_email_kept [where val = "[bob_entry]" and self_id = 1 and d = db_ex
      and ?d2.0 = db_ex_after and res = "Inr ()" and u = "()"]
  have dist: "distinct (map ed_email [bob_entry])" by simp
  from t wf_db_ex amo_db_ex setter_ex have a: "at_most_one_primary db_ex_after" by blast
  from t wf_db_ex setter_ex dist have b: "primary_count db_ex_after 1 = 1" by blast
  have "primary_entries [] \<noteq> 1" by (simp add: primary_entries_def)
  with primary_email_kept [where val = "[]" and self_id = 1 and d = db_ex]
  have c: "\<exists>msg. email_items_setter 1 [] db_ex = (Inl (ValidationError msg), db_ex)" by blast
  have gu: "get_user db_ex (ea_user_id ?self) = Inr ?bob"
    by (simp add: get_user_def get_one_def db_ex_def)
  have gp: "get_primary db_ex (ea_user_id ?self) = Inr (Some ?old)"
    by (simp add: get_primary_def get_one_def db_ex_def)
  note s = primary_email_kept [where self = ?self and d = db_ex and usr = ?bob]
  from s [where old = ?old] gu gp
  have e: "set_as_primary ?self True db_ex = (Inr False, db_ex)" by blast
  have m: "?self \<in> set (emails db_ex)" by (simp add: db_ex_def)
  have nc: "\<not> (False \<and> get_primary db_ex (ea_user_id ?self) \<noteq> Inr None)" by simp
  from s [where conditional = False] wf_db_ex amo_db_ex m gu nc
  obtain d' where p: "set_as_primary ?self False db_ex = (Inr True, d')"
    "?self\<lparr>ea_primary := True\<rparr> \<in> set (emails d')"
    "primary_count d' (ea_user_id ?self) = 1" "at_most_one_primary d'"
    "\<forall>old. get_primary db_ex (ea_user_id ?self) = Inr (Some old) \<and> ea_id old \<noteq> ea_id ?self \<longrightarrow>
       old\<lparr>ea_primary := False\<rparr> \<in> set (emails d')"
    by blast
  from p(5) gp have "?old\<lparr>ea_primary := False\<rparr> \<in> set (emails d')" by simp
  with p have f: "\<exists>d'. set_as_primary ?self False db_ex = (Inr True, d') \<and>
         \<lparr>ea_id = 3, ea_email = ''bob@work.nl'', ea_user_id = 2, ea_primary = True, ea_verified = True\<rparr>
           \<in> set (emails d') \<and>
         \<lparr>ea_id = 2, ea_email = ''bob@b.nl'', ea_user_id = 2, ea_primary = False, ea_verified = False\<rparr>
           \<in> set (emails d') \<and>
         primary_count d' 2 = 1 \<and> at_most_one_primary d'"
    by (intro exI [of _ d']) simp
  from wf_db_ex amo_db_ex setter_ex a b c e f show ?thesis by blast
qed

text \<open>
  Counterexample to C3 as stated: both users have exactly one primary address; user 1
  takes over the unverified primary address of user 2, who is left with one address and
  no primary one.
\<close>

theorem primary_email_kept_counterexample:
  "primary_count db_ex 1 = 1 \<and> primary_count db_ex 2 = 1 \<and>
   email_items_setter 1 [bob_entry] db_ex = (Inr (), db_ex_after) \<and>
   cached_emails db_ex_after 2 =
     [\<lparr>ea_id = 3, ea_email = ''bob@work.nl'', ea_user_id = 2, ea_primary = False, ea_verified = True\<rparr>] \<and>
   primary_count db_ex_after 2 = 0"
  using setter_ex
  by (simp add: primary_count_def cached_emails_def db_ex_def db_ex_after_def)

text \<open>
  A submitted list that names one email twice passes the count of primary entries, and
  the last entry decides: the user is left without a primary address.
\<close>

lemma lower_ann: "lower ''ann@a.nl'' = ''ann@a.nl''"
  by (simp add: lower_def lower_char_def is_upper_def)

lemma email_items_duplicate_entries:
  "\<exists>d2. email_items_setter 1
           [\<lparr>ed_email = ''ann@a.nl'', ed_primary = Some True\<rparr>,
            \<lparr>ed_email = ''ann@a.nl'', ed_primary = Some False\<rparr>] db_ex = (Inr (), d2) \<and>
         cached_emails d2 1 =
           [\<lparr>ea_id = 1, ea_email = ''ann@a.nl'', ea_user_id = 1, ea_primary = False, ea_verified = True\<rparr>] \<and>
         primary_count d2 1 = 0"
proof -
  let ?x = "\<lparr>ed_email = ''ann@a.nl'', ed_primary = Some True\<rparr>"
  let ?y = "\<lparr>ed_email = ''ann@a.nl'', ed_primary = Some False\<rparr>"
  let ?a = "\<lparr>ea_id = 1, ea_email = ''ann@a.nl'', ea_user_id = 1, ea_primary = True, ea_verified = True\<rparr>"
  let ?a' = "\<lparr>ea_id = 1, ea_email = ''ann@a.nl'', ea_user_id = 1, ea_primary = False, ea_verified = True\<rparr>"
  have e0: "write_email (emails db_ex) ?a = emails db_ex"
    by (simp add: write_email_def db_ex_def)
  have g: "get_or_create ''ann@a.nl'' 1 p db_ex = (Inr (?a, False), db_ex)" for p
    by (simp add: get_or_create_def get_by_email_def get_one_def db_ex_def)
  have s1: "cached_email_save recursion_limit ?a db_ex = (Inr (), db_ex)"
    using cached_email_save_lower [of ?a db_ex] e0 by (simp add: lower_ann)
  have s2: "cached_email_save recursion_limit ?a' db_ex =
              (Inr (), db_ex\<lparr>emails := write_email (emails db_ex) ?a'\<rparr>)"
    by (rule cached_email_save_lower) (simp add: lower_ann)
  have u1: "update_item 1 ?x db_ex = (Inr (), db_ex)"
    using g s1 by (simp add: update_item_def get_primary_flag_def)
  have u2: "update_item 1 ?y db_ex = (Inr (), db_ex\<lparr>emails := write_email (emails db_ex) ?a'\<rparr>)"
    using g s2 by (simp add: update_item_def get_primary_flag_def)
  have "primary_entries [?x, ?y] = 1"
    by (simp add: primary_entries_def get_primary_flag_def)
  then have c: "sum_list (map (\<lambda>e. if get_primary_flag e then 1 else 0 :: nat) [?x, ?y]) = 1"
    by (simp only: sum_flags)
  have "email_items_setter 1 [?x, ?y] db_ex =
          (Inr (), db_ex\<lparr>emails := write_email (emails db_ex) ?a'\<rparr>)"
    using u1 u2 c
    by (simp add: email_items_setter_def atomic_def cached_emails_def write_email_def
        delete_email_def db_ex_def)
  then show ?thesis
    by (simp add: cached_emails_def primary_count_def write_email_def db_ex_def)
qed

section \<open>Properties of the agreed terms version\<close>





















section \<open>Properties of the rank check\<close>

lemma next_ge_pk_fresh: "x \<in> set objects \<Longrightarrow> ge_pk x \<noteq> Some (next_ge_pk objects)"
proof
  assume x: "x \<in> set objects" and e: "ge_pk x = Some (next_ge_pk objects)"
  from x have "pk_of x \<le> fold max (map pk_of objects) 0"
    by (intro fold_max_mem) simp
  moreover from e have "pk_of x = next_ge_pk objects" by (simp add: pk_of_def)
  ultimately show False by (simp add: next_ge_pk_def)
qed

lemma first_by_pk_None: "first_by_pk qs = None \<longleftrightarrow> qs = []"
proof -
  have "sort_key pk_of qs = [] \<longleftrightarrow> qs = []"
    by (metis length_sort length_0_conv)
  then show ?thesis by (auto simp: first_by_pk_def split: list.splits)
qed

lemma first_by_pk_Some: "first_by_pk qs = Some x \<Longrightarrow> x \<in> set qs"
proof -
  assume "first_by_pk qs = Some x"
  then obtain zs where "sort_key pk_of qs = x # zs"
    by (auto simp: first_by_pk_def split: list.splits)
  then have "x \<in> set (sort_key pk_of qs)" by simp
  then show ?thesis by simp
qed

lemma ge_invD1: "ge_inv objects \<Longrightarrow> x \<in> set objects \<Longrightarrow> ge_pk x \<noteq> None"
  by (simp add: ge_inv_def)

lemma ge_invD2: "ge_inv objects \<Longrightarrow> distinct (map ge_pk objects)"
  by (simp add: ge_inv_def)

lemma ge_invD3:
  "ge_inv objects \<Longrightarrow> a \<in> set objects \<Longrightarrow> b \<in> set objects \<Longrightarrow> ge_rank a \<noteq> None \<Longrightarrow>
   ge_rank a = ge_rank b \<Longrightarrow> ge_pk a = ge_pk b"
  unfolding ge_inv_def by blast

lemma ge_invI:
  assumes "\<And>x. x \<in> set objects \<Longrightarrow> ge_pk x \<noteq> None"
    and "distinct (map ge_pk objects)"
    and "\<And>a b. a \<in> set objects \<Longrightarrow> b \<in> set objects \<Longrightarrow> ge_rank a \<noteq> None \<Longrightarrow>
           ge_rank a = ge_rank b \<Longrightarrow> ge_pk a = ge_pk b"
  shows "ge_inv objects"
  unfolding ge_inv_def using assms by blast

lemma other_holds_rank_iff:
  "other_holds_rank objects inst rank \<longleftrightarrow>
     (\<exists>y \<in> set objects. ge_rank y = Some rank \<and> ge_pk y \<noteq> ge_pk inst)"
  by (simp add: other_holds_rank_def list_ex_iff)

lemma check_rank_uniqueness_iff:
  assumes "ge_inv objects" and "ge_rank inst = Some rank"
  shows "(\<exists>msg. check_rank_uniqueness objects inst = Inl (ValidationError msg)) \<longleftrightarrow>
           other_holds_rank objects inst rank"
proof (cases "first_by_pk (filter (\<lambda>x. ge_rank x = Some rank) objects)")
  case None
  then have "filter (\<lambda>x. ge_rank x = Some rank) objects = []" by (simp add: first_by_pk_None)
  then have "\<forall>y \<in> set objects. ge_rank y \<noteq> Some rank"
    by (simp add: filter_empty_conv)
  then have "\<not> other_holds_rank objects inst rank"
    unfolding other_holds_rank_iff by blast
  with None assms(2) show ?thesis by (simp add: check_rank_uniqueness_def)
next
  case (Some x)
  from first_by_pk_Some [OF Some] have x: "x \<in> set objects" "ge_rank x = Some rank" by simp_all
  show ?thesis
  proof (cases "ge_pk x = ge_pk inst")
    case True
    have "\<not> other_holds_rank objects inst rank"
    proof
      assume "other_holds_rank objects inst rank"
      then obtain y where y: "y \<in> set objects" "ge_rank y = Some rank" "ge_pk y \<noteq> ge_pk inst"
        unfolding other_holds_rank_iff by blast
      have "ge_pk x = ge_pk y"
        by (rule ge_invD3 [OF assms(1) x(1) y(1)]) (simp_all add: x(2) y(2))
      with True y(3) show False by simp
    qed
    with Some True assms(2) show ?thesis by (simp add: check_rank_uniqueness_def)
  next
    case False
    with x have "other_holds_rank objects inst rank"
      unfolding other_holds_rank_iff by blast
    with Some False assms(2) show ?thesis by (simp add: check_rank_uniqueness_def)
  qed
qed

lemma check_rank_uniqueness_Inr:
  assumes "ge_inv objects" and "check_rank_uniqueness objects inst = Inr u"
    and "y \<in> set objects" and "ge_rank y = ge_rank inst" and "ge_rank inst \<noteq> None"
  shows "ge_pk y = ge_pk inst"
proof -
  from assms(5) obtain rank where r: "ge_rank inst = Some rank" by auto
  from assms(2) have "\<not> (\<exists>msg. check_rank_uniqueness objects inst = Inl (ValidationError msg))"
    by simp
  with check_rank_uniqueness_iff [OF assms(1) r]
  have "\<not> other_holds_rank objects inst rank" by simp
  with assms(3,4) r show ?thesis unfolding other_holds_rank_iff by auto
qed

lemma ge_inv_append:
  assumes inv: "ge_inv objects" and pk: "ge_pk new = Some k"
    and fresh: "\<And>x. x \<in> set objects \<Longrightarrow> ge_pk x \<noteq> Some k"
    and r: "\<And>y. y \<in> set objects \<Longrightarrow> ge_rank new \<noteq> None \<Longrightarrow> ge_rank y \<noteq> ge_rank new"
  shows "ge_inv (objects @ [new])"
proof (rule ge_invI)
  fix x assume "x \<in> set (objects @ [new])"
  then show "ge_pk x \<noteq> None" using ge_invD1 [OF inv] pk by auto
next
  have "Some k \<notin> set (map ge_pk objects)"
  proof
    assume "Some k \<in> set (map ge_pk objects)"
    then obtain x where "x \<in> set objects" "ge_pk x = Some k" by auto
    with fresh show False by blast
  qed
  then show "distinct (map ge_pk (objects @ [new]))"
    using ge_invD2 [OF inv] by (simp add: pk)
next
  fix a b
  assume ab: "a \<in> set (objects @ [new])" "b \<in> set (objects @ [new])"
    and n: "ge_rank a \<noteq> None" and e: "ge_rank a = ge_rank b"
  from ab have ca: "a = new \<or> a \<in> set objects" and cb: "b = new \<or> b \<in> set objects" by auto
  from ca cb show "ge_pk a = ge_pk b"
  proof (elim disjE)
    assume "a = new" "b = new" then show ?thesis by simp
  next
    assume h: "a = new" "b \<in> set objects"
    have "ge_rank new \<noteq> None" using n unfolding h(1) .
    from r [OF h(2) this] have "ge_rank b \<noteq> ge_rank new" .
    moreover have "ge_rank new = ge_rank b" using e unfolding h(1) .
    ultimately show ?thesis by simp
  next
    assume h: "a \<in> set objects" "b = new"
    have eq: "ge_rank a = ge_rank new" using e unfolding h(2) .
    with n have "ge_rank new \<noteq> None" by simp
    from r [OF h(1) this] eq show ?thesis by simp
  next
    assume m: "a \<in> set objects" "b \<in> set objects"
    show ?thesis by (rule ge_invD3 [OF inv m n e])
  qed
qed

lemma ge_inv_write:
  assumes inv: "ge_inv objects" and chk: "check_rank_uniqueness objects inst = Inr u"
  shows "ge_inv (write_group_entity objects inst)"
proof (cases "ge_pk inst")
  case None
  let ?new = "inst\<lparr>ge_pk := Some (next_ge_pk objects)\<rparr>"
  have w: "write_group_entity objects inst = objects @ [?new]"
    using None by (simp add: write_group_entity_def)
  have "ge_inv (objects @ [?new])"
  proof (rule ge_inv_append [OF inv])
    show "ge_pk ?new = Some (next_ge_pk objects)" by simp
  next
    fix x assume "x \<in> set objects"
    then show "ge_pk x \<noteq> Some (next_ge_pk objects)" by (rule next_ge_pk_fresh)
  next
    fix y assume y: "y \<in> set objects" and n: "ge_rank ?new \<noteq> None"
    show "ge_rank y \<noteq> ge_rank ?new"
    proof
      assume e: "ge_rank y = ge_rank ?new"
      have "ge_pk y = ge_pk inst"
        by (rule check_rank_uniqueness_Inr [OF inv chk y]) (use e n in simp_all)
      with None ge_invD1 [OF inv y] show False by simp
    qed
  qed
  then show ?thesis by (simp only: w)
next
  case (Some k)
  show ?thesis
  proof (cases "Some k \<in> set (map ge_pk objects)")
    case False
    have w: "write_group_entity objects inst = objects @ [inst]"
      using Some False by (simp add: write_group_entity_def)
    have "ge_inv (objects @ [inst])"
    proof (rule ge_inv_append [OF inv Some])
      fix x assume "x \<in> set objects"
      with False show "ge_pk x \<noteq> Some k" by force
    next
      fix y assume y: "y \<in> set objects" and n: "ge_rank inst \<noteq> None"
      show "ge_rank y \<noteq> ge_rank inst"
      proof
        assume e: "ge_rank y = ge_rank inst"
        have "ge_pk y = ge_pk inst"
          by (rule check_rank_uniqueness_Inr [OF inv chk y e n])
        with Some False y show False by force
      qed
    qed
    then show ?thesis by (simp only: w)
  next
    case True
    let ?f = "\<lambda>x. if ge_pk x = Some k then inst else x"
    have w: "write_group_entity objects inst = map ?f objects"
      using Some True by (simp add: write_group_entity_def)
    have pk: "map ge_pk (map ?f objects) = map ge_pk objects"
      using Some by (induction objects) auto
    have st: "\<And>a. a \<in> set (map ?f objects) \<Longrightarrow>
                a = inst \<or> (a \<in> set objects \<and> ge_pk a \<noteq> Some k)"
      by auto
    have r: "\<And>y. y \<in> set objects \<Longrightarrow> ge_rank inst \<noteq> None \<Longrightarrow> ge_rank y = ge_rank inst \<Longrightarrow>
               ge_pk y = Some k"
      using check_rank_uniqueness_Inr [OF inv chk] Some by auto
    have "ge_inv (map ?f objects)"
    proof (rule ge_invI)
      fix x assume "x \<in> set (map ?f objects)"
      from st [OF this] show "ge_pk x \<noteq> None" using ge_invD1 [OF inv] Some by auto
    next
      show "distinct (map ge_pk (map ?f objects))"
        unfolding pk by (rule ge_invD2 [OF inv])
    next
      fix a b assume ab: "a \<in> set (map ?f objects)" "b \<in> set (map ?f objects)"
        and n: "ge_rank a \<noteq> None" and e: "ge_rank a = ge_rank b"
      from st [OF ab(1)] st [OF ab(2)] show "ge_pk a = ge_pk b"
      proof (elim disjE conjE)
        assume "a = inst" "b = inst" then show ?thesis by simp
      next
        assume h: "a = inst" "b \<in> set objects" "ge_pk b \<noteq> Some k"
        have n': "ge_rank inst \<noteq> None" using n unfolding h(1) .
        have "ge_rank inst = ge_rank b" using e unfolding h(1) .
        then have "ge_rank b = ge_rank inst" by (rule sym)
        from r [OF h(2) n' this] h(3) show ?thesis by simp
      next
        assume h: "b = inst" "a \<in> set objects" "ge_pk a \<noteq> Some k"
        have eq: "ge_rank a = ge_rank inst" using e unfolding h(1) .
        with n have n': "ge_rank inst \<noteq> None" by simp
        from r [OF h(2) n' eq] h(3) show ?thesis by simp
      next
        assume m: "a \<in> set objects" "b \<in> set objects"
        show ?thesis by (rule ge_invD3 [OF inv m n e])
      qed
    qed
    then show ?thesis by (simp only: w)
  qed
qed

lemma ge_inv_delete:
  assumes inv: "ge_inv objects"
  shows "ge_inv (delete_group_entity objects k)"
  unfolding delete_group_entity_def
proof (rule ge_invI)
  fix x assume "x \<in> set (filter (\<lambda>x. ge_pk x \<noteq> Some k) objects)"
  then show "ge_pk x \<noteq> None" using ge_invD1 [OF inv] by simp
next
  show "distinct (map ge_pk (filter (\<lambda>x. ge_pk x \<noteq> Some k) objects))"
    using ge_invD2 [OF inv] by (rule distinct_map_filter)
next
  fix a b
  assume "a \<in> set (filter (\<lambda>x. ge_pk x \<noteq> Some k) objects)"
    "b \<in> set (filter (\<lambda>x. ge_pk x \<noteq> Some k) objects)"
    and n: "ge_rank a \<noteq> None" "ge_rank a = ge_rank b"
  then have "a \<in> set objects" "b \<in> set objects" by simp_all
  with n show "ge_pk a = ge_pk b" using ge_invD3 [OF inv] by blast
qed

lemma reachable_ge_inv: "reachable objects \<Longrightarrow> ge_inv objects"
proof (induction rule: reachable.induct)
  case empty
  show ?case by (simp add: ge_inv_def)
next
  case (save objects inst objects')
  from save.hyps(2) obtain u where
    c: "check_rank_uniqueness objects inst = Inr u" and
    o: "objects' = write_group_entity objects inst"
    by (auto simp: save_group_entity_def split: sum.splits)
  from ge_inv_write [OF save.IH c] o show ?case by simp
next
  case (delete objects k)
  from delete.IH show ?case by (rule ge_inv_delete)
qed

lemma ge_inv_ranks_unique: "ge_inv objects \<Longrightarrow> ranks_unique objects"
  unfolding ge_inv_def ranks_unique_def
proof (intro allI impI)
  fix i j
  assume inv: "(\<forall>x\<in>set objects. ge_pk x \<noteq> None) \<and> distinct (map ge_pk objects) \<and>
       (\<forall>a\<in>set objects. \<forall>b\<in>set objects.
           ge_rank a \<noteq> None \<longrightarrow> ge_rank a = ge_rank b \<longrightarrow> ge_pk a = ge_pk b)"
    and ij: "i < length objects" "j < length objects" "i \<noteq> j"
    and n: "ge_rank (objects ! i) \<noteq> None"
  show "ge_rank (objects ! i) \<noteq> ge_rank (objects ! j)"
  proof
    assume e: "ge_rank (objects ! i) = ge_rank (objects ! j)"
    from ij have "objects ! i \<in> set objects" "objects ! j \<in> set objects" by simp_all
    with inv n e have "ge_pk (objects ! i) = ge_pk (objects ! j)" by blast
    then have "map ge_pk objects ! i = map ge_pk objects ! j" using ij by simp
    moreover from inv have "distinct (map ge_pk objects)" by blast
    moreover from ij have "i < length (map ge_pk objects)" "j < length (map ge_pk objects)"
      by simp_all
    ultimately have "i = j" by (simp only: nth_eq_iff_index_eq)
    with ij show False by simp
  qed
qed

text \<open>
  Claim C6. In every table that saving and deleting can produce, saving a GroupEntity
  whose rank is not None raises ValidationError if and only if some other stored
  GroupEntity holds that rank; and no two stored records share a rank that is not None.
\<close>

theorem save_group_entity_rank_unique:
  assumes "reachable objects" and "ge_rank instance = Some rank"
  shows "((\<exists>msg. save_group_entity objects instance = Inl (ValidationError msg)) \<longleftrightarrow>
            other_holds_rank objects instance rank) \<and>
         ranks_unique objects"
proof -
  from assms(1) have inv: "ge_inv objects" by (rule reachable_ge_inv)
  have "(\<exists>msg. save_group_entity objects instance = Inl (ValidationError msg)) \<longleftrightarrow>
          (\<exists>msg. check_rank_uniqueness objects instance = Inl (ValidationError msg))"
    by (auto simp: save_group_entity_def split: sum.splits)
  with check_rank_uniqueness_iff [OF inv assms(2)] ge_inv_ranks_unique [OF inv]
  show ?thesis by simp
qed


text \<open>
  Witness for C6: one record of rank 3 is stored; saving a new record of rank 3 is
  refused.
\<close>

theorem save_group_entity_rank_unique_witness:
  "reachable [group_entity_ex\<lparr>ge_pk := Some 1\<rparr>] \<and>
   save_group_entity [group_entity_ex\<lparr>ge_pk := Some 1\<rparr>] (group_entity_ex\<lparr>ge_group := 8\<rparr>) =
     Inl (ValidationError ''Group rank already ascribed, choose another'') \<and>
   other_holds_rank [group_entity_ex\<lparr>ge_pk := Some 1\<rparr>] (group_entity_ex\<lparr>ge_group := 8\<rparr>) 3 \<and>
   ranks_unique [group_entity_ex\<lparr>ge_pk := Some 1\<rparr>]"
proof -
  let ?tbl = "[group_entity_ex\<lparr>ge_pk := Some 1\<rparr>]"
  let ?new = "group_entity_ex\<lparr>ge_group := 8\<rparr>"
  have s0: "save_group_entity [] group_entity_ex = Inr ?tbl"
    by (simp add: save_group_entity_def check_rank_uniqueness_def first_by_pk_def
        write_group_entity_def next_ge_pk_def group_entity_ex_def)
  have re: "reachable ?tbl"
    by (rule reachable.save [OF reachable.empty s0])
  have rk: "ge_rank ?new = Some 3"
    by (simp add: group_entity_ex_def)
  have s1: "save_group_entity ?tbl ?new =
              Inl (ValidationError ''Group rank already ascribed, choose another'')"
    by (simp add: save_group_entity_def check_rank_uniqueness_def first_by_pk_def
        group_entity_ex_def)
  from save_group_entity_rank_unique [OF re rk] s1 re show ?thesis by auto
qed

section \<open>Properties of the login callback\<close>

lemma callback_well_formed_state:
  assumes "GET_state request = Some state"
    and "split CHR ''-'' state = [process, auth_token, badgr_app_pk]"
  shows "callback w request =
           (case GET_code request of
              None \<Rightarrow> Inr (RenderAuthenticationError NoUserToken)
            | Some code \<Rightarrow> exchange_code w request process auth_token badgr_app_pk code)"
  using assms by (simp add: callback_def)

text \<open>
  With a state of three parts, each failure of the exchange is answered by an
  authentication error: no code, a token endpoint status other than 200, no access
  token, a userinfo status other than 200, user data without email or sub.
\<close>

lemma callback_renders_error:
  assumes st: "GET_state request = Some state"
    and sp: "split CHR ''-'' state = [process, auth_token, badgr_app_pk]"
  shows "GET_code request = None \<Longrightarrow>
           callback w request = Inr (RenderAuthenticationError NoUserToken)"
    and "GET_code request = Some code \<Longrightarrow> current_app w = Some app \<Longrightarrow>
         status_code (token_endpoint w app code) \<noteq> 200 \<Longrightarrow>
           callback w request =
             Inr (RenderAuthenticationError
                    (TokenEndpointError (status_code (token_endpoint w app code))))"
    and "GET_code request = Some code \<Longrightarrow> current_app w = Some app \<Longrightarrow>
         status_code (token_endpoint w app code) = 200 \<Longrightarrow>
         body (token_endpoint w app code) = Some data \<Longrightarrow>
         dict_get data ''access_token'' = None \<Longrightarrow>
           callback w request = Inr (RenderAuthenticationError NoAccessToken)"
    and "GET_code request = Some code \<Longrightarrow> current_app w = Some app \<Longrightarrow>
         status_code (token_endpoint w app code) = 200 \<Longrightarrow>
         body (token_endpoint w app code) = Some data \<Longrightarrow>
         dict_get data ''access_token'' = Some access_token \<Longrightarrow>
         status_code (userinfo_endpoint w access_token) \<noteq> 200 \<Longrightarrow>
           callback w request =
             Inr (RenderAuthenticationError
                    (UserInfoEndpointError (status_code (userinfo_endpoint w access_token))))"
    and "GET_code request = Some code \<Longrightarrow> current_app w = Some app \<Longrightarrow>
         status_code (token_endpoint w app code) = 200 \<Longrightarrow>
         body (token_endpoint w app code) = Some data \<Longrightarrow>
         dict_get data ''access_token'' = Some access_token \<Longrightarrow>
         status_code (userinfo_endpoint w access_token) = 200 \<Longrightarrow>
         body (userinfo_endpoint w access_token) = Some extra_data \<Longrightarrow>
         ''email'' \<notin> fst ` set extra_data \<or> ''sub'' \<notin> fst ` set extra_data \<Longrightarrow>
           callback w request = Inr (RenderAuthenticationError NoEmail)"
  unfolding callback_well_formed_state [OF st sp]
  by (simp_all add: exchange_code_def retrieve_user_information_def)

text \<open>The login is completed only when every step of the exchange succeeded.\<close>

lemma callback_completes_only_if:
  assumes "callback w request = Inr (CompleteSocialLogin login)"
  shows "\<exists>code app data access_token.
           GET_code request = Some code \<and> current_app w = Some app \<and>
           status_code (token_endpoint w app code) = 200 \<and>
           body (token_endpoint w app code) = Some data \<and>
           dict_get data ''access_token'' = Some access_token \<and>
           status_code (userinfo_endpoint w access_token) = 200 \<and>
           body (userinfo_endpoint w access_token) = Some (login_extra_data login) \<and>
           ''email'' \<in> fst ` set (login_extra_data login) \<and>
           ''sub'' \<in> fst ` set (login_extra_data login)"
proof -
  from assms obtain state where st: "GET_state request = Some state"
    by (cases "GET_state request") (simp_all add: callback_def)
  from assms st obtain process auth_token badgr_app_pk where
    sp: "split CHR ''-'' state = [process, auth_token, badgr_app_pk]"
    by (auto simp: callback_def split: list.splits)
  note c = assms [unfolded callback_well_formed_state [OF st sp]]
  from c obtain code where code: "GET_code request = Some code"
    by (cases "GET_code request") simp_all
  with c have e: "exchange_code w request process auth_token badgr_app_pk code =
                    Inr (CompleteSocialLogin login)" by simp
  then obtain app where app: "current_app w = Some app"
    by (cases "current_app w") (simp_all add: exchange_code_def)
  from e app have s1: "status_code (token_endpoint w app code) = 200"
    by (auto simp: exchange_code_def Let_def split: if_splits)
  from e app s1 obtain data where data: "body (token_endpoint w app code) = Some data"
    by (cases "body (token_endpoint w app code)") (simp_all add: exchange_code_def)
  from e app s1 data obtain access_token where
    tok: "dict_get data ''access_token'' = Some access_token"
    by (cases "dict_get data ''access_token''") (simp_all add: exchange_code_def)
  from e app s1 data tok have
    r: "retrieve_user_information w request process auth_token badgr_app_pk access_token =
          Inr (CompleteSocialLogin login)"
    by (simp add: exchange_code_def)
  then have s2: "status_code (userinfo_endpoint w access_token) = 200"
    by (auto simp: retrieve_user_information_def Let_def split: if_splits)
  from r s2 obtain extra_data where
    ex: "body (userinfo_endpoint w access_token) = Some extra_data"
    by (cases "body (userinfo_endpoint w access_token)")
      (simp_all add: retrieve_user_information_def)
  from r s2 ex have k: "''email'' \<in> fst ` set extra_data" "''sub'' \<in> fst ` set extra_data"
    and cl: "complete_login w request process auth_token badgr_app_pk extra_data =
              Inr (CompleteSocialLogin login)"
    by (auto simp: retrieve_user_information_def split: if_splits)
  from cl have "login_extra_data login = extra_data"
    by (auto simp: complete_login_def split: sum.splits if_splits)
  with code app s1 data tok s2 ex k show ?thesis by auto
qed

text \<open>
  Claim C9 says that a callback without code renders an authentication error. The view
  unpacks the state before it looks at the code: a request without code and without
  state raises AttributeError, and one whose state has no three parts raises ValueError;
  neither renders the authentication error.
\<close>

theorem callback_without_state:
  "callback w bare_request = Inl AttributeError \<and>
   callback w (bare_request\<lparr>GET_state := Some ''login''\<rparr>) = Inl ValueError"
  by (simp add: callback_def bare_request_def)

text \<open>Two runs with a well-formed state: a completed login, and a callback without code.\<close>

lemma py_int_ex: "py_int ''1'' = Inr 1" "py_int ''None'' = Inl ValueError"
  by (simp_all add: py_int_def is_space_def is_digit_def digits_value_def)

lemma callback_world_ex:
  "callback world_ex \<lparr>GET_state = Some ''login-tok-1'', GET_code = Some ''c'', user_is_anonymous = True\<rparr>
     = Inr (CompleteSocialLogin \<lparr>login_process = ''login'',
           login_extra_data = [(''email'', Some ''a@b.nl''), (''sub'', Some ''u1'')],
           login_badgr_app = 1, login_as = None\<rparr>)"
  by (simp add: callback_def world_ex_def exchange_code_def retrieve_user_information_def
      complete_login_def dict_get_def py_int_ex)

text \<open>
  The state that \<open>login\<close> writes for a session without BadgrApp ends in \<open>None\<close>: the
  exchange succeeds and the lookup of the BadgrApp raises ValueError.
\<close>

lemma callback_world_ex_no_badgr_app:
  "callback world_ex \<lparr>GET_state = Some ''login-tok-None'', GET_code = Some ''c'', user_is_anonymous = True\<rparr>
     = Inl ValueError"
  by (simp add: callback_def world_ex_def exchange_code_def retrieve_user_information_def
      complete_login_def dict_get_def py_int_ex)

lemma callback_world_ex_no_code:
  "callback world_ex \<lparr>GET_state = Some ''login-tok-1'', GET_code = None, user_is_anonymous = True\<rparr>
     = Inr (RenderAuthenticationError NoUserToken)"
  by (simp add: callback_def)

end
